theory Spec2Isabelle
  imports Complex_Main "HOL-Library.Word"
begin

section \<open>Data model of \<^verbatim>\<open>filter_impl.cpp\<close>\<close>

text \<open>
  The frame is a caller-owned byte buffer; a pixel is three consecutive bytes (struct
  \<^verbatim>\<open>rgb\<close>, red first). The two process-wide vectors \<^verbatim>\<open>pixel_states\<close> and
  \<^verbatim>\<open>motion_mask\<close> are gathered in the record \<open>filter_state\<close> and passed explicitly.

  The C++ \<^verbatim>\<open>int\<close> values (coordinates, sizes, the counter) are modelled by \<open>int\<close>; a list
  is indexed through \<open>nat\<close>. The counter provably stays within 0 and 100; the index and
  offset computations are taken not to overflow, as for any frame that fits in memory.

  The C++ \<^verbatim>\<open>float\<close> values are modelled by the real numbers they stand for: every float
  the program handles is one of the constants 0, 1, 4, 25, 30, 255, an 8-bit channel value,
  or the correctly rounded square root of an integer below \<open>3 * 255\<^sup>2 + 1\<close>, which
  rounding maps to floats strictly monotonically and without crossing one of the integer
  thresholds, so each comparison, minimum and maximum of the program has the outcome it has
  on the reals.
\<close>

type_synonym uint8_t = "8 word"

record rgb =
  r :: uint8_t
  g :: uint8_t
  b :: uint8_t

record PixelState =
  bg_r :: real
  bg_g :: real
  bg_b :: real
  time :: int

record filter_state =
  pixel_states :: "PixelState list"
  motion_mask :: "real list"

text \<open>The state before the first call: both global vectors are empty.\<close>

definition initial_state :: filter_state where
  "initial_state = \<lparr>pixel_states = [], motion_mask = []\<rparr>"

subsection \<open>Conversions between channel bytes and floats\<close>

text \<open>The implicit conversion in \<^verbatim>\<open>state.bg_r = pixel.r\<close>; it is exact.\<close>

definition float_of_uint8 :: "uint8_t \<Rightarrow> real" where
  "float_of_uint8 c = real (unat c)"

text \<open>
  The cast \<^verbatim>\<open>uint8_t(f)\<close>: the fractional part is discarded (truncation towards zero).
  Outside the range of the type the C++ conversion is undefined; the model wraps there.
\<close>

definition to_uint8_t :: "real \<Rightarrow> uint8_t" where
  "to_uint8_t f = word_of_int (if 0 \<le> f then \<lfloor>f\<rfloor> else \<lceil>f\<rceil>)"

subsection \<open>Loops\<close>

text \<open>\<^verbatim>\<open>for (int i = lo; i < n; ++i) body\<close>, threading the state the body mutates.\<close>

function for_loop :: "int \<Rightarrow> int \<Rightarrow> (int \<Rightarrow> 's \<Rightarrow> 's) \<Rightarrow> 's \<Rightarrow> 's" where
  "for_loop i n body s = (if i < n then for_loop (i + 1) n body (body i s) else s)"
  by pat_completeness auto
termination
  by (relation "measure (\<lambda>(i, n, body, s). nat (n - i))") auto

declare for_loop.simps [simp del]

text \<open>
  The cells of the rectangle \<open>[y0, h) \<times> [x0, w)\<close> that a row-major pair of nested loops
  has visited when it reaches the cell \<open>(y, x)\<close>.
\<close>

definition before :: "int \<Rightarrow> int \<Rightarrow> int \<Rightarrow> int \<Rightarrow> int \<Rightarrow> int \<Rightarrow> (int \<times> int) set" where
  "before y0 h x0 w y x =
     {(y', x'). y0 \<le> y' \<and> y' < h \<and> x0 \<le> x' \<and> x' < w \<and> (y' < y \<or> (y' = y \<and> x' < x))}"

subsection \<open>Frame access\<close>

text \<open>
  \<^verbatim>\<open>rgb* lineptr = (rgb*)(buffer + y * stride); lineptr[x]\<close>: the three bytes at offset
  \<open>y * stride + 3 * x\<close>. The parameter \<^verbatim>\<open>pixel_stride\<close> of the entry point is never read.
\<close>

definition pixel_offset :: "int \<Rightarrow> int \<Rightarrow> int \<Rightarrow> nat" where
  "pixel_offset stride y x = nat (y * stride + 3 * x)"

definition read_pixel :: "uint8_t list \<Rightarrow> int \<Rightarrow> int \<Rightarrow> int \<Rightarrow> rgb" where
  "read_pixel buffer stride y x =
     \<lparr>r = buffer ! pixel_offset stride y x,
      g = buffer ! (pixel_offset stride y x + 1),
      b = buffer ! (pixel_offset stride y x + 2)\<rparr>"

text \<open>
  A frame the code can process without leaving the buffer: rows do not overlap and every
  pixel's three bytes lie inside the buffer. Outside of it the C++ behaviour is undefined.
\<close>

definition frame_ok :: "uint8_t list \<Rightarrow> int \<Rightarrow> int \<Rightarrow> int \<Rightarrow> bool" where
  "frame_ok buffer width height stride \<longleftrightarrow>
     0 \<le> width \<and> 0 \<le> height \<and> 3 * width \<le> stride \<and> height * stride \<le> int (length buffer)"

section \<open>The operations\<close>

definition colorDistance :: "rgb \<Rightarrow> rgb \<Rightarrow> real" where
  "colorDistance p1 p2 =
     sqrt (real_of_int
       ((uint (r p1) - uint (r p2)) * (uint (r p1) - uint (r p2)) +
        (uint (g p1) - uint (g p2)) * (uint (g p1) - uint (g p2)) +
        (uint (b p1) - uint (b p2)) * (uint (b p1) - uint (b p2))))"

subsection \<open>Morphological opening\<close>

text \<open>The two innermost loops of the erosion pass: the running minimum, started at 255.\<close>

definition erode_at :: "real list \<Rightarrow> int \<Rightarrow> int \<Rightarrow> int \<Rightarrow> int \<Rightarrow> real" where
  "erode_at temp_mask width radius y x =
     for_loop (- radius) (radius + 1) (\<lambda>dy min_val.
       for_loop (- radius) (radius + 1) (\<lambda>dx min_val.
         if dx * dx + dy * dy \<le> radius * radius
         then min min_val (temp_mask ! nat ((y + dy) * width + (x + dx)))
         else min_val) min_val) 255"

text \<open>The two innermost loops of the dilation pass: the running maximum, started at 0.\<close>

definition dilate_at :: "real list \<Rightarrow> int \<Rightarrow> int \<Rightarrow> int \<Rightarrow> int \<Rightarrow> real" where
  "dilate_at temp_mask width radius y x =
     for_loop (- radius) (radius + 1) (\<lambda>dy max_val.
       for_loop (- radius) (radius + 1) (\<lambda>dx max_val.
         if dx * dx + dy * dy \<le> radius * radius
         then max max_val (temp_mask ! nat ((y + dy) * width + (x + dx)))
         else max_val) max_val) 0"

text \<open>The erosion pass: \<open>temp_mask\<close> is the snapshot taken before it.\<close>

definition erosion :: "real list \<Rightarrow> int \<Rightarrow> int \<Rightarrow> int \<Rightarrow> real list" where
  "erosion motion_mask0 width height radius =
     (let temp_mask = motion_mask0 in
      for_loop radius (height - radius) (\<lambda>y mm.
        for_loop radius (width - radius) (\<lambda>x mm.
          mm[nat (y * width + x) := erode_at temp_mask width radius y x]) mm) motion_mask0)"

text \<open>The dilation pass, with its own snapshot.\<close>

definition dilation :: "real list \<Rightarrow> int \<Rightarrow> int \<Rightarrow> int \<Rightarrow> real list" where
  "dilation motion_mask0 width height radius =
     (let temp_mask = motion_mask0 in
      for_loop radius (height - radius) (\<lambda>y mm.
        for_loop radius (width - radius) (\<lambda>x mm.
          mm[nat (y * width + x) := dilate_at temp_mask width radius y x]) mm) motion_mask0)"

definition applyMorphologicalOpening :: "real list \<Rightarrow> int \<Rightarrow> int \<Rightarrow> int \<Rightarrow> real list" where
  "applyMorphologicalOpening motion_mask0 width height radius =
     dilation (erosion motion_mask0 width height radius) width height radius"

subsection \<open>Hysteresis thresholding\<close>

text \<open>
  The neighbour search of a weak pixel. It reads the mask as it is when the pixel is
  visited; the two \<^verbatim>\<open>break\<close>s only cut the search short once a neighbour is found.
\<close>

definition strong_neighbor :: "real list \<Rightarrow> int \<Rightarrow> int \<Rightarrow> real \<Rightarrow> int \<Rightarrow> int \<Rightarrow> bool" where
  "strong_neighbor mm width height high_thresh y x =
     list_ex (\<lambda>dy. list_ex (\<lambda>dx.
       let ny = y + dy; nx = x + dx in
       ny \<ge> 0 \<and> ny < height \<and> nx \<ge> 0 \<and> nx < width \<and>
       mm ! nat (ny * width + nx) \<ge> high_thresh) [-1, 0, 1]) [-1, 0, 1]"

text \<open>The body of the sweep at one pixel: the value written to \<open>mm[y * width + x]\<close>.\<close>

definition hysteresis_value :: "real list \<Rightarrow> int \<Rightarrow> int \<Rightarrow> real \<Rightarrow> real \<Rightarrow> int \<Rightarrow> int \<Rightarrow> real" where
  "hysteresis_value mm width height low_thresh high_thresh y x =
     (let v = mm ! nat (y * width + x) in
      if v \<ge> high_thresh then 1
      else if v < low_thresh then 0
      else if strong_neighbor mm width height high_thresh y x then 1 else 0)"

definition applyHysteresisThresholding ::
    "real list \<Rightarrow> int \<Rightarrow> int \<Rightarrow> real \<Rightarrow> real \<Rightarrow> real list" where
  "applyHysteresisThresholding motion_mask0 width height low_thresh high_thresh =
     for_loop 0 height (\<lambda>y mm.
       for_loop 0 width (\<lambda>x mm.
         mm[nat (y * width + x) :=
              hysteresis_value mm width height low_thresh high_thresh y x]) mm) motion_mask0"

subsection \<open>Background model and difference detector\<close>

text \<open>The seeding loop body of the first frame.\<close>

definition seed_pixel :: "uint8_t list \<Rightarrow> int \<Rightarrow> int \<Rightarrow> int \<Rightarrow> int \<Rightarrow> PixelState list \<Rightarrow> PixelState list" where
  "seed_pixel buffer width stride y x ps =
     (let idx = y * width + x;
          pixel = read_pixel buffer stride y x
      in ps[nat idx := (ps ! nat idx)\<lparr>bg_r := float_of_uint8 (r pixel),
                                      bg_g := float_of_uint8 (g pixel),
                                      bg_b := float_of_uint8 (b pixel)\<rparr>])"

text \<open>The seeding loops of the first frame, over all rows and columns.\<close>

definition seed_loop :: "uint8_t list \<Rightarrow> int \<Rightarrow> int \<Rightarrow> int \<Rightarrow> PixelState list \<Rightarrow> PixelState list" where
  "seed_loop buffer width height stride ps0 =
     for_loop 0 height (\<lambda>y ps.
       for_loop 0 width (\<lambda>x ps. seed_pixel buffer width stride y x ps) ps) ps0"

text \<open>
  What one detector iteration does to the pixel's state; the second argument of
  \<^verbatim>\<open>colorDistance\<close> is the stored estimate cast to bytes.
\<close>

definition background_of :: "PixelState \<Rightarrow> rgb" where
  "background_of state =
     \<lparr>r = to_uint8_t (bg_r state), g = to_uint8_t (bg_g state), b = to_uint8_t (bg_b state)\<rparr>"

definition update_state :: "PixelState \<Rightarrow> rgb \<Rightarrow> PixelState" where
  "update_state state pixel =
     (if colorDistance pixel (background_of state) < 25 then state\<lparr>time := 0\<rparr>
      else if time state + 1 > 100
           then \<lparr>bg_r = float_of_uint8 (r pixel), bg_g = float_of_uint8 (g pixel),
                 bg_b = float_of_uint8 (b pixel), time = 0\<rparr>
           else state\<lparr>time := time state + 1\<rparr>)"

text \<open>The detector's loop body: the state entry and, on a change, the mask entry.\<close>

definition detect_pixel :: "uint8_t list \<Rightarrow> int \<Rightarrow> int \<Rightarrow> int \<Rightarrow> int \<Rightarrow> filter_state \<Rightarrow> filter_state" where
  "detect_pixel buffer width stride y x st =
     (let idx = y * width + x;
          state = pixel_states st ! nat idx;
          pixel = read_pixel buffer stride y x;
          distance = colorDistance pixel (background_of state)
      in \<lparr>pixel_states = (pixel_states st)[nat idx := update_state state pixel],
          motion_mask = (if distance < 25 then motion_mask st
                         else (motion_mask st)[nat idx := distance])\<rparr>)"

definition detect_loop :: "uint8_t list \<Rightarrow> int \<Rightarrow> int \<Rightarrow> int \<Rightarrow> filter_state \<Rightarrow> filter_state" where
  "detect_loop buffer width height stride st0 =
     for_loop 0 height (\<lambda>y s.
       for_loop 0 width (\<lambda>x s. detect_pixel buffer width stride y x s) s) st0"

subsection \<open>Compositor\<close>

text \<open>
  \<^verbatim>\<open>lineptr[x].r = std::min(255, lineptr[x].r + uint8_t(0.5f * 255))\<close>: the sum is an
  \<^verbatim>\<open>int\<close>, so it cannot wrap before the minimum is taken.
\<close>

definition highlight :: "uint8_t \<Rightarrow> uint8_t" where
  "highlight c = word_of_int (min 255 (uint c + uint (to_uint8_t (0.5 * 255))))"

definition composite_pixel :: "real list \<Rightarrow> int \<Rightarrow> int \<Rightarrow> int \<Rightarrow> int \<Rightarrow> uint8_t list \<Rightarrow> uint8_t list" where
  "composite_pixel mm width stride y x buffer =
     (let idx = y * width + x in
      if mm ! nat idx > 0
      then buffer[pixel_offset stride y x := highlight (buffer ! pixel_offset stride y x)]
      else buffer)"

definition composite_loop :: "real list \<Rightarrow> uint8_t list \<Rightarrow> int \<Rightarrow> int \<Rightarrow> int \<Rightarrow> uint8_t list" where
  "composite_loop mm buffer width height stride =
     for_loop 0 height (\<lambda>y buf.
       for_loop 0 width (\<lambda>x buf. composite_pixel mm width stride y x buf) buf) buffer"

subsection \<open>The frame entry point\<close>

definition filter_impl ::
    "filter_state \<Rightarrow> uint8_t list \<Rightarrow> int \<Rightarrow> int \<Rightarrow> int \<Rightarrow> int \<Rightarrow> filter_state \<times> uint8_t list" where
  "filter_impl st buffer width height stride pixel_stride =
     (if pixel_states st = [] then
        let ps0 = replicate (nat (width * height)) \<lparr>bg_r = 0, bg_g = 0, bg_b = 0, time = 0\<rparr>;
            ps1 = seed_loop buffer width height stride ps0
        in (st\<lparr>pixel_states := ps1\<rparr>, buffer)
      else
        let st0 = (if motion_mask st = []
                   then st\<lparr>motion_mask := replicate (nat (width * height)) 0\<rparr> else st);
            st1 = detect_loop buffer width height stride st0;
            radius = max 3 (min width height div 100);
            mm2 = applyMorphologicalOpening (motion_mask st1) width height radius;
            low_thresh = 4;
            high_thresh = 30;
            mm3 = applyHysteresisThresholding mm2 width height low_thresh high_thresh;
            buffer' = composite_loop mm3 buffer width height stride
        in (st1\<lparr>motion_mask := mm3\<rparr>, buffer'))"

text \<open>Processing a sequence of frames of one geometry, keeping only the filter's state.\<close>

fun run_frames :: "filter_state \<Rightarrow> int \<Rightarrow> int \<Rightarrow> int \<Rightarrow> uint8_t list list \<Rightarrow> filter_state" where
  "run_frames st width height stride [] = st"
| "run_frames st width height stride (buffer # frames) =
     run_frames (fst (filter_impl st buffer width height stride 3)) width height stride frames"

text \<open>
  The two vectors are either still empty or sized for the frame geometry: the code never
  resizes a vector that is not empty, and indexes both by \<open>y * width + x\<close>.
\<close>

definition state_ok :: "filter_state \<Rightarrow> int \<Rightarrow> int \<Rightarrow> bool" where
  "state_ok st width height \<longleftrightarrow>
     (pixel_states st = [] \<or> length (pixel_states st) = nat (width * height)) \<and>
     (motion_mask st = [] \<or> length (motion_mask st) = nat (width * height))"

text \<open>
  The states the filter can be in between two calls, for frames of one geometry that the
  code can process without leaving the buffer.
\<close>

inductive reachable :: "int \<Rightarrow> int \<Rightarrow> filter_state \<Rightarrow> bool" for width height where
  start: "reachable width height initial_state"
| frame: "reachable width height st \<Longrightarrow> frame_ok buffer width height stride \<Longrightarrow>
     reachable width height (fst (filter_impl st buffer width height stride pixel_stride))"

text \<open>
  A state entry as the code leaves it: each stored channel estimate survives the cast to a
  byte and back, and the counter has not passed the adaptation threshold.
\<close>

definition byte_state :: "PixelState \<Rightarrow> bool" where
  "byte_state s \<longleftrightarrow>
     bg_r s = float_of_uint8 (to_uint8_t (bg_r s)) \<and>
     bg_g s = float_of_uint8 (to_uint8_t (bg_g s)) \<and>
     bg_b s = float_of_uint8 (to_uint8_t (bg_b s)) \<and>
     0 \<le> time s \<and> time s \<le> 100"

text \<open>The offsets of the structuring element: the cells of the disk of the given radius.\<close>

definition disk :: "int \<Rightarrow> (int \<times> int) set" where
  "disk radius =
     {(dy, dx). - radius \<le> dy \<and> dy \<le> radius \<and> - radius \<le> dx \<and> dx \<le> radius \<and>
                dx * dx + dy * dy \<le> radius * radius}"

text \<open>
  What the in-place sweep amounts to, in terms of the map before the sweep: only the
  neighbours the sweep has not visited yet (to the right in the same row, and in the row
  below) can still hold a value of \<open>high_thresh\<close> or more, when \<open>high_thresh\<close> is above 1.
\<close>

definition later_strong_neighbor :: "real list \<Rightarrow> int \<Rightarrow> int \<Rightarrow> real \<Rightarrow> int \<Rightarrow> int \<Rightarrow> bool" where
  "later_strong_neighbor mm width height high_thresh y x =
     list_ex (\<lambda>dy. list_ex (\<lambda>dx.
       (0 < dy \<or> (dy = 0 \<and> 0 < dx)) \<and>
       0 \<le> y + dy \<and> y + dy < height \<and> 0 \<le> x + dx \<and> x + dx < width \<and>
       high_thresh \<le> mm ! nat ((y + dy) * width + (x + dx))) [-1, 0, 1]) [-1, 0, 1]"

definition sweep_value :: "real list \<Rightarrow> int \<Rightarrow> int \<Rightarrow> real \<Rightarrow> real \<Rightarrow> int \<Rightarrow> int \<Rightarrow> real" where
  "sweep_value mm width height low_thresh high_thresh y x =
     (let v = mm ! nat (y * width + x) in
      if v \<ge> high_thresh then 1
      else if v < low_thresh then 0
      else if later_strong_neighbor mm width height high_thresh y x then 1 else 0)"



section \<open>Loop rules\<close>

lemma for_loop_rule:
  "P i s \<Longrightarrow> (\<And>j t. i \<le> j \<Longrightarrow> j < n \<Longrightarrow> P j t \<Longrightarrow> P (j + 1) (body j t))
     \<Longrightarrow> P (max i n) (for_loop i n body s)"
proof (induction i n body s rule: for_loop.induct)
  case (1 i n body s)
  show ?case
  proof (cases "i < n")
    case True
    have "P (i + 1) (body i s)"
      using "1.prems" True by simp
    moreover have "\<And>j t. i + 1 \<le> j \<Longrightarrow> j < n \<Longrightarrow> P j t \<Longrightarrow> P (j + 1) (body j t)"
      using "1.prems"(2) by simp
    ultimately have "P (max (i + 1) n) (for_loop (i + 1) n body (body i s))"
      using "1.IH" [OF True] by blast
    moreover have "max (i + 1) n = max i n"
      using True by simp
    ultimately show ?thesis
      using True by (subst for_loop.simps) simp
  next
    case False
    then show ?thesis
      using "1.prems"(1) by (subst for_loop.simps) (simp add: max_def)
  qed
qed

lemma for_loop_inv:
  assumes "I s" and "\<And>j t. i \<le> j \<Longrightarrow> j < n \<Longrightarrow> I t \<Longrightarrow> I (body j t)"
  shows "I (for_loop i n body s)"
  using for_loop_rule [where P = "\<lambda>_. I", OF assms(1)] assms(2) by blast

lemma before_start: "before y0 h x0 w y0 x0 = {}"
  by (auto simp: before_def)

lemma before_step:
  "y0 \<le> y \<Longrightarrow> y < h \<Longrightarrow> x0 \<le> x \<Longrightarrow> x < w \<Longrightarrow>
   before y0 h x0 w y (x + 1) = insert (y, x) (before y0 h x0 w y x)"
  by (auto simp: before_def)

lemma before_wrap:
  "y0 \<le> y \<Longrightarrow> y < h \<Longrightarrow> before y0 h x0 w y (max x0 w) = before y0 h x0 w (y + 1) x0"
  by (auto simp: before_def)

lemma before_end:
  "before y0 h x0 w (max y0 h) x0 = {y0..<h} \<times> {x0..<w}"
  by (auto simp: before_def)

lemma for_loop2_rule:
  assumes init: "J {} s0"
    and step: "\<And>y x s. y0 \<le> y \<Longrightarrow> y < h \<Longrightarrow> x0 \<le> x \<Longrightarrow> x < w \<Longrightarrow>
                 J (before y0 h x0 w y x) s \<Longrightarrow>
                 J (insert (y, x) (before y0 h x0 w y x)) (body y x s)"
  shows "J ({y0..<h} \<times> {x0..<w})
           (for_loop y0 h (\<lambda>y s. for_loop x0 w (\<lambda>x s. body y x s) s) s0)"
proof -
  have row: "J (before y0 h x0 w (y + 1) x0) (for_loop x0 w (\<lambda>x s. body y x s) s)"
    if "y0 \<le> y" "y < h" "J (before y0 h x0 w y x0) s" for y s
  proof -
    have "J (before y0 h x0 w y (max x0 w)) (for_loop x0 w (\<lambda>x s. body y x s) s)"
      by (rule for_loop_rule [where P = "\<lambda>x s. J (before y0 h x0 w y x) s"])
         (use that step in \<open>simp_all add: before_step\<close>)
    then show ?thesis
      using that by (simp add: before_wrap)
  qed
  have "J (before y0 h x0 w (max y0 h) x0)
          (for_loop y0 h (\<lambda>y s. for_loop x0 w (\<lambda>x s. body y x s) s) s0)"
    by (rule for_loop_rule [where P = "\<lambda>y s. J (before y0 h x0 w y x0) s"])
       (use init row in \<open>simp_all add: before_start\<close>)
  then show ?thesis
    by (simp add: before_end)
qed

lemma cell_index_less:
  fixes width :: int
  assumes "0 \<le> y" "y < height" "0 \<le> x" "x < width"
  shows "y * width + x < width * height"
proof -
  have "y * width + x < y * width + width"
    using assms by simp
  also have "\<dots> = (y + 1) * width"
    by (simp add: algebra_simps)
  also have "\<dots> \<le> height * width"
    using assms by (intro mult_right_mono) simp_all
  finally show ?thesis
    by (simp add: mult.commute)
qed

lemma cell_index_inj:
  fixes width :: int
  assumes "0 \<le> x" "x < width" "0 \<le> x'" "x' < width"
    and eq: "y * width + x = y' * width + x'"
  shows "y = y' \<and> x = x'"
proof -
  have row: "(a * width + c) div width = a" if "0 \<le> c" "c < width" for a c
    using that by simp
  have "(y * width + x) div width = (y' * width + x') div width"
    by (simp only: eq)
  then have "y = y'"
    using assms(1-4) by (simp only: row)
  then show ?thesis
    using eq by simp
qed

lemma nat_cell_index_inj:
  fixes width :: int
  assumes "0 \<le> y" "0 \<le> x" "x < width" "0 \<le> y'" "0 \<le> x'" "x' < width"
    and eq: "nat (y * width + x) = nat (y' * width + x')"
  shows "y = y' \<and> x = x'"
proof -
  have "0 \<le> y * width + x" "0 \<le> y' * width + x'"
    using assms by simp_all
  then have "y * width + x = y' * width + x'"
    using eq by linarith
  then show ?thesis
    using assms cell_index_inj by blast
qed

lemma nat_cell_index_less:
  fixes width :: int
  assumes "0 \<le> y" "y < height" "0 \<le> x" "x < width"
  shows "nat (y * width + x) < nat (width * height)"
  using cell_index_less [OF assms] assms by simp

lemma for_loop2_cells:
  fixes get :: "nat \<Rightarrow> 's \<Rightarrow> 'c" and idx :: "int \<Rightarrow> int \<Rightarrow> nat"
  assumes I0: "I s0"
    and Ipres: "\<And>y x s. y0 \<le> y \<Longrightarrow> y < h \<Longrightarrow> x0 \<le> x \<Longrightarrow> x < w \<Longrightarrow> I s \<Longrightarrow> I (body y x s)"
    and own: "\<And>y x s. y0 \<le> y \<Longrightarrow> y < h \<Longrightarrow> x0 \<le> x \<Longrightarrow> x < w \<Longrightarrow> I s \<Longrightarrow>
                get (idx y x) (body y x s) = F y x (get (idx y x) s)"
    and other: "\<And>y x s k. y0 \<le> y \<Longrightarrow> y < h \<Longrightarrow> x0 \<le> x \<Longrightarrow> x < w \<Longrightarrow> I s \<Longrightarrow>
                k \<noteq> idx y x \<Longrightarrow> get k (body y x s) = get k s"
    and inj: "\<And>y x y' x'. y0 \<le> y \<Longrightarrow> y < h \<Longrightarrow> x0 \<le> x \<Longrightarrow> x < w \<Longrightarrow>
                y0 \<le> y' \<Longrightarrow> y' < h \<Longrightarrow> x0 \<le> x' \<Longrightarrow> x' < w \<Longrightarrow>
                idx y x = idx y' x' \<Longrightarrow> y = y' \<and> x = x'"
  shows "I (for_loop y0 h (\<lambda>y s. for_loop x0 w (\<lambda>x s. body y x s) s) s0) \<and>
         (\<forall>y x. y0 \<le> y \<and> y < h \<and> x0 \<le> x \<and> x < w \<longrightarrow>
            get (idx y x) (for_loop y0 h (\<lambda>y s. for_loop x0 w (\<lambda>x s. body y x s) s) s0) =
              F y x (get (idx y x) s0)) \<and>
         (\<forall>k. (\<forall>y x. y0 \<le> y \<and> y < h \<and> x0 \<le> x \<and> x < w \<longrightarrow> k \<noteq> idx y x) \<longrightarrow>
            get k (for_loop y0 h (\<lambda>y s. for_loop x0 w (\<lambda>x s. body y x s) s) s0) = get k s0)"
proof -
  define J where "J V s \<longleftrightarrow> I s \<and>
      (\<forall>y x. y0 \<le> y \<and> y < h \<and> x0 \<le> x \<and> x < w \<longrightarrow>
         get (idx y x) s = (if (y, x) \<in> V then F y x (get (idx y x) s0) else get (idx y x) s0)) \<and>
      (\<forall>k. (\<forall>y x. y0 \<le> y \<and> y < h \<and> x0 \<le> x \<and> x < w \<longrightarrow> k \<noteq> idx y x) \<longrightarrow> get k s = get k s0)"
    for V s
  have "J ({y0..<h} \<times> {x0..<w}) (for_loop y0 h (\<lambda>y s. for_loop x0 w (\<lambda>x s. body y x s) s) s0)"
  proof (rule for_loop2_rule)
    show "J {} s0"
      by (simp add: J_def I0)
  next
    fix y x s
    assume r: "y0 \<le> y" "y < h" "x0 \<le> x" "x < w" and j: "J (before y0 h x0 w y x) s"
    have Is: "I s"
      using j by (simp add: J_def)
    have notin: "(y, x) \<notin> before y0 h x0 w y x"
      by (simp add: before_def)
    show "J (insert (y, x) (before y0 h x0 w y x)) (body y x s)"
      unfolding J_def
    proof (intro conjI allI impI)
      show "I (body y x s)"
        using r Is by (rule Ipres)
    next
      fix y' x'
      assume r': "y0 \<le> y' \<and> y' < h \<and> x0 \<le> x' \<and> x' < w"
      show "get (idx y' x') (body y x s) =
              (if (y', x') \<in> insert (y, x) (before y0 h x0 w y x)
               then F y' x' (get (idx y' x') s0) else get (idx y' x') s0)"
      proof (cases "y' = y \<and> x' = x")
        case True
        have "get (idx y x) s = get (idx y x) s0"
          using j r notin by (simp add: J_def)
        then show ?thesis
          using True own [OF r Is] by simp
      next
        case False
        then have "idx y' x' \<noteq> idx y x"
          using inj r r' by blast
        then have "get (idx y' x') (body y x s) = get (idx y' x') s"
          using other [OF r Is] by blast
        then show ?thesis
          using False j r' by (auto simp: J_def)
      qed
    next
      fix k
      assume k: "\<forall>y x. y0 \<le> y \<and> y < h \<and> x0 \<le> x \<and> x < w \<longrightarrow> k \<noteq> idx y x"
      then have "k \<noteq> idx y x"
        using r by blast
      then have "get k (body y x s) = get k s"
        using other [OF r Is] by blast
      then show "get k (body y x s) = get k s0"
        using j k by (simp add: J_def)
    qed
  qed
  then show ?thesis
    by (simp add: J_def)
qed

subsection \<open>The seeding loop\<close>

lemma seed_loop_cells:
  assumes len: "length ps0 = nat (width * height)"
  shows "length (seed_loop buffer width height stride ps0) = length ps0 \<and>
         (\<forall>y x. 0 \<le> y \<and> y < height \<and> 0 \<le> x \<and> x < width \<longrightarrow>
            seed_loop buffer width height stride ps0 ! nat (y * width + x) =
              (ps0 ! nat (y * width + x))
                \<lparr>bg_r := float_of_uint8 (r (read_pixel buffer stride y x)),
                 bg_g := float_of_uint8 (g (read_pixel buffer stride y x)),
                 bg_b := float_of_uint8 (b (read_pixel buffer stride y x))\<rparr>)"
proof -
  have "(length (seed_loop buffer width height stride ps0) = length ps0) \<and>
        (\<forall>y x. 0 \<le> y \<and> y < height \<and> 0 \<le> x \<and> x < width \<longrightarrow>
            seed_loop buffer width height stride ps0 ! nat (y * width + x) =
              (ps0 ! nat (y * width + x))
                \<lparr>bg_r := float_of_uint8 (r (read_pixel buffer stride y x)),
                 bg_g := float_of_uint8 (g (read_pixel buffer stride y x)),
                 bg_b := float_of_uint8 (b (read_pixel buffer stride y x))\<rparr>) \<and>
        (\<forall>k. (\<forall>y x. 0 \<le> y \<and> y < height \<and> 0 \<le> x \<and> x < width \<longrightarrow> k \<noteq> nat (y * width + x)) \<longrightarrow>
            seed_loop buffer width height stride ps0 ! k = ps0 ! k)"
    unfolding seed_loop_def
  proof (rule for_loop2_cells
      [where I = "\<lambda>s. length s = length ps0" and get = "\<lambda>k s. s ! k"
         and idx = "\<lambda>y x. nat (y * width + x)"
         and F = "\<lambda>y x c. c\<lparr>bg_r := float_of_uint8 (r (read_pixel buffer stride y x)),
                 bg_g := float_of_uint8 (g (read_pixel buffer stride y x)),
                 bg_b := float_of_uint8 (b (read_pixel buffer stride y x))\<rparr>"])
    show "length ps0 = length ps0" ..
  next
    fix y x and s :: "PixelState list"
    assume "0 \<le> y" "y < height" "0 \<le> x" "x < width" "length s = length ps0"
    then show "length (seed_pixel buffer width stride y x s) = length ps0"
      by (simp add: seed_pixel_def Let_def)
  next
    fix y x and s :: "PixelState list"
    assume a: "0 \<le> y" "y < height" "0 \<le> x" "x < width" "length s = length ps0"
    then have "nat (y * width + x) < length s"
      using nat_cell_index_less [of y height x width] len by simp
    then show "seed_pixel buffer width stride y x s ! nat (y * width + x) =
                 (s ! nat (y * width + x))
                   \<lparr>bg_r := float_of_uint8 (r (read_pixel buffer stride y x)),
                    bg_g := float_of_uint8 (g (read_pixel buffer stride y x)),
                    bg_b := float_of_uint8 (b (read_pixel buffer stride y x))\<rparr>"
      by (simp add: seed_pixel_def Let_def)
  next
    fix y x s k
    assume "k \<noteq> nat (y * width + x)"
    then show "seed_pixel buffer width stride y x s ! k = s ! k"
      by (simp add: seed_pixel_def Let_def)
  next
    fix y x y' x'
    assume "0 \<le> y" "y < height" "0 \<le> x" "x < width" "0 \<le> y'" "y' < height" "0 \<le> x'" "x' < width"
      "nat (y * width + x) = nat (y' * width + x')"
    then show "y = y' \<and> x = x'"
      using nat_cell_index_inj by blast
  qed
  then show ?thesis
    by blast
qed


subsection \<open>The detector loop\<close>

lemma detect_loop_cells:
  assumes lp: "length (pixel_states st0) = nat (width * height)"
    and lm: "length (motion_mask st0) = nat (width * height)"
  shows "length (pixel_states (detect_loop buffer width height stride st0)) = nat (width * height) \<and>
         length (motion_mask (detect_loop buffer width height stride st0)) = nat (width * height) \<and>
         (\<forall>y x. 0 \<le> y \<and> y < height \<and> 0 \<le> x \<and> x < width \<longrightarrow>
            pixel_states (detect_loop buffer width height stride st0) ! nat (y * width + x) =
              update_state (pixel_states st0 ! nat (y * width + x)) (read_pixel buffer stride y x) \<and>
            motion_mask (detect_loop buffer width height stride st0) ! nat (y * width + x) =
              (if colorDistance (read_pixel buffer stride y x)
                    (background_of (pixel_states st0 ! nat (y * width + x))) < 25
               then motion_mask st0 ! nat (y * width + x)
               else colorDistance (read_pixel buffer stride y x)
                      (background_of (pixel_states st0 ! nat (y * width + x)))))"
proof -
  let ?I = "\<lambda>s :: filter_state. length (pixel_states s) = nat (width * height) \<and>
                length (motion_mask s) = nat (width * height)"
  let ?get = "\<lambda>k (s :: filter_state). (pixel_states s ! k, motion_mask s ! k)"
  let ?F = "\<lambda>y x (c :: PixelState \<times> real).
              (update_state (fst c) (read_pixel buffer stride y x),
               if colorDistance (read_pixel buffer stride y x) (background_of (fst c)) < 25
               then snd c
               else colorDistance (read_pixel buffer stride y x) (background_of (fst c)))"
  let ?res = "detect_loop buffer width height stride st0"
  have "?I ?res \<and>
        (\<forall>y x. 0 \<le> y \<and> y < height \<and> 0 \<le> x \<and> x < width \<longrightarrow>
            ?get (nat (y * width + x)) ?res = ?F y x (?get (nat (y * width + x)) st0)) \<and>
        (\<forall>k. (\<forall>y x. 0 \<le> y \<and> y < height \<and> 0 \<le> x \<and> x < width \<longrightarrow> k \<noteq> nat (y * width + x)) \<longrightarrow>
            ?get k ?res = ?get k st0)"
    unfolding detect_loop_def
  proof (rule for_loop2_cells [where I = ?I and get = ?get
         and idx = "\<lambda>y x. nat (y * width + x)" and F = ?F])
    show "?I st0"
      using lp lm by simp
  next
    fix y x and s :: filter_state
    assume "?I s"
    then show "?I (detect_pixel buffer width stride y x s)"
      by (simp add: detect_pixel_def Let_def)
  next
    fix y x and s :: filter_state
    assume a: "0 \<le> y" "y < height" "0 \<le> x" "x < width" "?I s"
    then have "nat (y * width + x) < nat (width * height)"
      using nat_cell_index_less [of y height x width] by simp
    then show "?get (nat (y * width + x)) (detect_pixel buffer width stride y x s) =
                 ?F y x (?get (nat (y * width + x)) s)"
      using a(5) by (simp add: detect_pixel_def Let_def)
  next
    fix y x k and s :: filter_state
    assume "k \<noteq> nat (y * width + x)"
    then show "?get k (detect_pixel buffer width stride y x s) = ?get k s"
      by (simp add: detect_pixel_def Let_def)
  next
    fix y x y' x'
    assume "0 \<le> y" "y < height" "0 \<le> x" "x < width" "0 \<le> y'" "y' < height" "0 \<le> x'" "x' < width"
      "nat (y * width + x) = nat (y' * width + x')"
    then show "y = y' \<and> x = x'"
      using nat_cell_index_inj by blast
  qed
  then show ?thesis
    by simp
qed

subsection \<open>The stencil passes\<close>

lemma stencil_pass_cells:
  fixes mm0 :: "real list"
  assumes rad: "0 \<le> radius" and len: "length mm0 = nat (width * height)"
  shows "length (for_loop radius (height - radius) (\<lambda>y mm.
            for_loop radius (width - radius) (\<lambda>x mm. mm[nat (y * width + x) := f y x]) mm) mm0)
           = length mm0 \<and>
         (\<forall>y x. radius \<le> y \<and> y < height - radius \<and> radius \<le> x \<and> x < width - radius \<longrightarrow>
            for_loop radius (height - radius) (\<lambda>y mm.
              for_loop radius (width - radius) (\<lambda>x mm. mm[nat (y * width + x) := f y x]) mm) mm0
              ! nat (y * width + x) = f y x) \<and>
         (\<forall>k. (\<forall>y x. radius \<le> y \<and> y < height - radius \<and> radius \<le> x \<and> x < width - radius
                  \<longrightarrow> k \<noteq> nat (y * width + x)) \<longrightarrow>
            for_loop radius (height - radius) (\<lambda>y mm.
              for_loop radius (width - radius) (\<lambda>x mm. mm[nat (y * width + x) := f y x]) mm) mm0
              ! k = mm0 ! k)"
proof (rule for_loop2_cells [where I = "\<lambda>s. length s = length mm0" and get = "\<lambda>k s. s ! k"
         and idx = "\<lambda>y x. nat (y * width + x)" and F = "\<lambda>y x c. f y x"])
  show "length mm0 = length mm0" ..
next
  fix y x and s :: "real list"
  assume "length s = length mm0"
  then show "length (s[nat (y * width + x) := f y x]) = length mm0"
    by simp
next
  fix y x and s :: "real list"
  assume a: "radius \<le> y" "y < height - radius" "radius \<le> x" "x < width - radius"
    "length s = length mm0"
  then have "nat (y * width + x) < nat (width * height)"
    using nat_cell_index_less [of y height x width] rad by simp
  then show "s[nat (y * width + x) := f y x] ! nat (y * width + x) = f y x"
    using a(5) len by simp
next
  fix y x k and s :: "real list"
  assume "k \<noteq> nat (y * width + x)"
  then show "s[nat (y * width + x) := f y x] ! k = s ! k"
    by simp
next
  fix y x y' x'
  assume "radius \<le> y" "y < height - radius" "radius \<le> x" "x < width - radius"
    "radius \<le> y'" "y' < height - radius" "radius \<le> x'" "x' < width - radius"
    "nat (y * width + x) = nat (y' * width + x')"
  then show "y = y' \<and> x = x'"
    using nat_cell_index_inj [of y x width y' x'] rad by simp
qed

lemma erosion_cells:
  assumes "0 \<le> radius" and "length mm0 = nat (width * height)"
  shows "length (erosion mm0 width height radius) = length mm0 \<and>
         (\<forall>y x. radius \<le> y \<and> y < height - radius \<and> radius \<le> x \<and> x < width - radius \<longrightarrow>
            erosion mm0 width height radius ! nat (y * width + x) = erode_at mm0 width radius y x) \<and>
         (\<forall>k. (\<forall>y x. radius \<le> y \<and> y < height - radius \<and> radius \<le> x \<and> x < width - radius
                  \<longrightarrow> k \<noteq> nat (y * width + x)) \<longrightarrow>
            erosion mm0 width height radius ! k = mm0 ! k)"
  unfolding erosion_def Let_def by (rule stencil_pass_cells [OF assms])

lemma dilation_cells:
  assumes "0 \<le> radius" and "length mm0 = nat (width * height)"
  shows "length (dilation mm0 width height radius) = length mm0 \<and>
         (\<forall>y x. radius \<le> y \<and> y < height - radius \<and> radius \<le> x \<and> x < width - radius \<longrightarrow>
            dilation mm0 width height radius ! nat (y * width + x) = dilate_at mm0 width radius y x) \<and>
         (\<forall>k. (\<forall>y x. radius \<le> y \<and> y < height - radius \<and> radius \<le> x \<and> x < width - radius
                  \<longrightarrow> k \<noteq> nat (y * width + x)) \<longrightarrow>
            dilation mm0 width height radius ! k = mm0 ! k)"
  unfolding dilation_def Let_def by (rule stencil_pass_cells [OF assms])

subsection \<open>Byte offsets in the frame\<close>

lemma pixel_offset_less:
  assumes ok: "frame_ok buffer width height stride"
    and r: "0 \<le> y" "y < height" "0 \<le> x" "x < width"
  shows "pixel_offset stride y x + 2 < length buffer"
proof -
  have s: "3 * width \<le> stride" "height * stride \<le> int (length buffer)"
    using ok by (simp_all add: frame_ok_def)
  have "y * stride + 3 * x + 2 < y * stride + stride"
    using r s by simp
  also have "\<dots> = (y + 1) * stride"
    by (simp add: algebra_simps)
  also have "\<dots> \<le> height * stride"
    using r s by (intro mult_right_mono) simp_all
  finally have "y * stride + 3 * x + 2 < int (length buffer)"
    using s by simp
  moreover have "0 \<le> y * stride + 3 * x"
    using r s by simp
  ultimately show ?thesis
    by (simp add: pixel_offset_def)
qed

lemma pixel_offset_inj:
  assumes s: "3 * width \<le> stride"
    and r: "0 \<le> y" "0 \<le> x" "x < width" "0 \<le> y'" "0 \<le> x'" "x' < width"
    and eq: "int (pixel_offset stride y x) + c = int (pixel_offset stride y' x') + c'"
    and c: "0 \<le> c" "c < 3" "0 \<le> c'" "c' < 3"
  shows "y = y' \<and> x = x' \<and> c = c'"
proof -
  have "0 \<le> y * stride + 3 * x" "0 \<le> y' * stride + 3 * x'"
    using r s by simp_all
  then have "y * stride + (3 * x + c) = y' * stride + (3 * x' + c')"
    using eq by (simp add: pixel_offset_def)
  moreover have "0 \<le> 3 * x + c" "3 * x + c < stride" "0 \<le> 3 * x' + c'" "3 * x' + c' < stride"
    using r s c by simp_all
  ultimately have "y = y' \<and> 3 * x + c = 3 * x' + c'"
    using cell_index_inj by blast
  then show ?thesis
    using c by presburger
qed

subsection \<open>The compositor loop\<close>

lemma composite_loop_cells:
  assumes ok: "frame_ok buffer width height stride"
  shows "length (composite_loop mm buffer width height stride) = length buffer \<and>
         (\<forall>y x. 0 \<le> y \<and> y < height \<and> 0 \<le> x \<and> x < width \<longrightarrow>
            composite_loop mm buffer width height stride ! pixel_offset stride y x =
              (if mm ! nat (y * width + x) > 0 then highlight (buffer ! pixel_offset stride y x)
               else buffer ! pixel_offset stride y x)) \<and>
         (\<forall>k. (\<forall>y x. 0 \<le> y \<and> y < height \<and> 0 \<le> x \<and> x < width \<longrightarrow> k \<noteq> pixel_offset stride y x) \<longrightarrow>
            composite_loop mm buffer width height stride ! k = buffer ! k)"
  unfolding composite_loop_def
proof (rule for_loop2_cells [where I = "\<lambda>s. length s = length buffer" and get = "\<lambda>k s. s ! k"
         and idx = "\<lambda>y x. pixel_offset stride y x"
         and F = "\<lambda>y x c. if mm ! nat (y * width + x) > 0 then highlight c else c"])
  show "length buffer = length buffer" ..
next
  fix y x and s :: "uint8_t list"
  assume "length s = length buffer"
  then show "length (composite_pixel mm width stride y x s) = length buffer"
    by (simp add: composite_pixel_def Let_def)
next
  fix y x and s :: "uint8_t list"
  assume a: "0 \<le> y" "y < height" "0 \<le> x" "x < width" "length s = length buffer"
  then have "pixel_offset stride y x < length s"
    using pixel_offset_less [OF ok, of y x] by simp
  then show "composite_pixel mm width stride y x s ! pixel_offset stride y x =
               (if mm ! nat (y * width + x) > 0 then highlight (s ! pixel_offset stride y x)
                else s ! pixel_offset stride y x)"
    by (simp add: composite_pixel_def Let_def)
next
  fix y x k and s :: "uint8_t list"
  assume "k \<noteq> pixel_offset stride y x"
  then show "composite_pixel mm width stride y x s ! k = s ! k"
    by (simp add: composite_pixel_def Let_def)
next
  fix y x y' x'
  assume a: "0 \<le> y" "y < height" "0 \<le> x" "x < width" "0 \<le> y'" "y' < height" "0 \<le> x'" "x' < width"
    "pixel_offset stride y x = pixel_offset stride y' x'"
  have "3 * width \<le> stride"
    using ok by (simp add: frame_ok_def)
  then show "y = y' \<and> x = x'"
    using pixel_offset_inj [of width stride y x y' x' 0 0] a by simp
qed

subsection \<open>Channel bytes\<close>

lemma to_uint8_t_float_of_uint8 [simp]: "to_uint8_t (float_of_uint8 c) = c"
proof -
  have "to_uint8_t (real (unat c)) = word_of_int \<lfloor>real (unat c)\<rfloor>"
    by (simp only: to_uint8_t_def of_nat_0_le_iff if_True)
  also have "\<dots> = word_of_int (int (unat c))"
    by (simp only: floor_of_nat)
  also have "\<dots> = c"
    by simp
  finally show ?thesis
    by (simp only: float_of_uint8_def)
qed

lemma float_of_uint8_range: "0 \<le> float_of_uint8 c \<and> float_of_uint8 c \<le> 255"
proof -
  have "unat c < 2 ^ LENGTH(8)"
    by (rule unsigned_less)
  then have "unat c \<le> 255"
    by simp
  then have "real (unat c) \<le> real 255"
    by (rule of_nat_mono)
  then have "real (unat c) \<le> 255"
    by (simp only: of_nat_numeral)
  then show ?thesis
    by (simp only: float_of_uint8_def of_nat_0_le_iff simp_thms)
qed

lemma float_of_uint8_Ints: "float_of_uint8 c \<in> \<int>"
  by (simp only: float_of_uint8_def Ints_of_nat)

lemma byte_state_update_state: "byte_state s \<Longrightarrow> byte_state (update_state s p)"
  by (simp add: byte_state_def update_state_def)

lemma byte_state_zero: "byte_state \<lparr>bg_r = 0, bg_g = 0, bg_b = 0, time = 0\<rparr>"
  by (simp add: byte_state_def float_of_uint8_def to_uint8_t_def)

lemma list_all_update:
  assumes "\<forall>e\<in>set xs. P e" and "i < length xs \<Longrightarrow> P v"
  shows "\<forall>e\<in>set (xs[i := v]). P e"
proof (cases "i < length xs")
  case True
  then show ?thesis
    using assms set_update_subset_insert [of xs i v] by auto
next
  case False
  then show ?thesis
    using assms(1) by (simp add: list_update_beyond)
qed

lemma for_loop2_inv:
  assumes "I s0" and "\<And>y x s. y0 \<le> y \<Longrightarrow> y < h \<Longrightarrow> x0 \<le> x \<Longrightarrow> x < w \<Longrightarrow> I s \<Longrightarrow> I (body y x s)"
  shows "I (for_loop y0 h (\<lambda>y s. for_loop x0 w (\<lambda>x s. body y x s) s) s0)"
proof (rule for_loop_inv [where I = I])
  show "I s0"
    by (rule assms(1))
next
  fix y s
  assume y: "y0 \<le> y" "y < h" and s: "I s"
  show "I (for_loop x0 w (\<lambda>x s. body y x s) s)"
    by (rule for_loop_inv [where I = I]) (use y s assms(2) in auto)
qed

lemma seed_loop_byte_state:
  assumes "\<forall>e\<in>set ps0. byte_state e"
  shows "\<forall>e\<in>set (seed_loop buffer width height stride ps0). byte_state e"
  unfolding seed_loop_def
proof (rule for_loop2_inv [where I = "\<lambda>s. \<forall>e\<in>set s. byte_state e"])
  show "\<forall>e\<in>set ps0. byte_state e"
    by (rule assms)
next
  fix y x and s :: "PixelState list"
  assume a: "\<forall>e\<in>set s. byte_state e"
  show "\<forall>e\<in>set (seed_pixel buffer width stride y x s). byte_state e"
    unfolding seed_pixel_def Let_def
  proof (rule list_all_update [OF a])
    assume "nat (y * width + x) < length s"
    then have "byte_state (s ! nat (y * width + x))"
      using a by simp
    then show "byte_state ((s ! nat (y * width + x))
        \<lparr>bg_r := float_of_uint8 (r (read_pixel buffer stride y x)),
         bg_g := float_of_uint8 (g (read_pixel buffer stride y x)),
         bg_b := float_of_uint8 (b (read_pixel buffer stride y x))\<rparr>)"
      by (simp add: byte_state_def)
  qed
qed

lemma detect_loop_byte_state:
  assumes "\<forall>e\<in>set (pixel_states st0). byte_state e"
  shows "\<forall>e\<in>set (pixel_states (detect_loop buffer width height stride st0)). byte_state e"
  unfolding detect_loop_def
proof (rule for_loop2_inv [where I = "\<lambda>s. \<forall>e\<in>set (pixel_states s). byte_state e"])
  show "\<forall>e\<in>set (pixel_states st0). byte_state e"
    by (rule assms)
next
  fix y x and s :: filter_state
  assume a: "\<forall>e\<in>set (pixel_states s). byte_state e"
  have "\<forall>e\<in>set ((pixel_states s)[nat (y * width + x) :=
          update_state (pixel_states s ! nat (y * width + x)) (read_pixel buffer stride y x)]).
          byte_state e"
    using a by (intro list_all_update) (simp_all add: byte_state_update_state)
  then show "\<forall>e\<in>set (pixel_states (detect_pixel buffer width stride y x s)). byte_state e"
    by (simp add: detect_pixel_def Let_def)
qed

lemma filter_impl_byte_state:
  assumes "\<forall>e\<in>set (pixel_states st). byte_state e"
  shows "\<forall>e\<in>set (pixel_states (fst (filter_impl st buffer width height stride pixel_stride))).
           byte_state e"
proof (cases "pixel_states st = []")
  case True
  have "\<forall>e\<in>set (replicate (nat (width * height)) \<lparr>bg_r = 0, bg_g = 0, bg_b = 0, time = 0\<rparr>).
          byte_state e"
    by (simp add: byte_state_zero)
  then have "\<forall>e\<in>set (seed_loop buffer width height stride
            (replicate (nat (width * height)) \<lparr>bg_r = 0, bg_g = 0, bg_b = 0, time = 0\<rparr>)).
          byte_state e"
    by (rule seed_loop_byte_state)
  then show ?thesis
    using True by (simp add: filter_impl_def Let_def)
next
  case False
  have "\<forall>e\<in>set (pixel_states (detect_loop buffer width height stride
            (if motion_mask st = [] then st\<lparr>motion_mask := replicate (nat (width * height)) 0\<rparr>
             else st))). byte_state e"
    using assms by (intro detect_loop_byte_state) simp
  then show ?thesis
    using False by (simp add: filter_impl_def Let_def)
qed

lemma reachable_byte_state:
  "reachable width height st \<Longrightarrow> \<forall>e\<in>set (pixel_states st). byte_state e"
proof (induction rule: reachable.induct)
  case start
  then show ?case
    by (simp add: initial_state_def)
next
  case (frame st buffer stride pixel_stride)
  then show ?case
    using filter_impl_byte_state by blast
qed

subsection \<open>A run on a frame of one pixel\<close>

lemma example_seed:
  "seed_loop [10, 20, 30] 1 1 3 [\<lparr>bg_r = 0, bg_g = 0, bg_b = 0, time = 0\<rparr>] =
     [\<lparr>bg_r = 10, bg_g = 20, bg_b = 30, time = 0\<rparr>]"
  by (simp add: seed_loop_def for_loop.simps seed_pixel_def read_pixel_def pixel_offset_def
      float_of_uint8_def)

lemma example_frame1:
  "filter_impl initial_state [10, 20, 30] 1 1 3 3 =
     (\<lparr>pixel_states = [\<lparr>bg_r = 10, bg_g = 20, bg_b = 30, time = 0\<rparr>], motion_mask = []\<rparr>,
      [10, 20, 30])"
  by (simp add: filter_impl_def initial_state_def example_seed)

lemma example_detect2:
  "detect_loop [110, 20, 30] 1 1 3
     \<lparr>pixel_states = [\<lparr>bg_r = 10, bg_g = 20, bg_b = 30, time = 0\<rparr>], motion_mask = [0]\<rparr> =
     \<lparr>pixel_states = [\<lparr>bg_r = 10, bg_g = 20, bg_b = 30, time = 1\<rparr>], motion_mask = [100]\<rparr>"
  by (simp add: detect_loop_def for_loop.simps detect_pixel_def update_state_def
      background_of_def to_uint8_t_def colorDistance_def read_pixel_def pixel_offset_def Let_def)

lemma example_opening: "applyMorphologicalOpening [v] 1 1 3 = [v]"
  by (simp add: applyMorphologicalOpening_def erosion_def dilation_def for_loop.simps)

lemma example_hysteresis2: "applyHysteresisThresholding [100] 1 1 4 30 = [1]"
  by (simp add: applyHysteresisThresholding_def hysteresis_value_def for_loop.simps)

lemma example_composite2: "composite_loop [1] [110, 20, 30] 1 1 3 = [237, 20, 30]"
  by (simp add: composite_loop_def composite_pixel_def highlight_def to_uint8_t_def
      pixel_offset_def for_loop.simps)

lemma example_frame2:
  "filter_impl \<lparr>pixel_states = [\<lparr>bg_r = 10, bg_g = 20, bg_b = 30, time = 0\<rparr>], motion_mask = []\<rparr>
     [110, 20, 30] 1 1 3 3 =
     (\<lparr>pixel_states = [\<lparr>bg_r = 10, bg_g = 20, bg_b = 30, time = 1\<rparr>], motion_mask = [1]\<rparr>,
      [237, 20, 30])"
  by (simp add: filter_impl_def example_detect2 example_opening example_hysteresis2
      example_composite2)

lemma example_reachable:
  "reachable 1 1 \<lparr>pixel_states = [\<lparr>bg_r = 10, bg_g = 20, bg_b = 30, time = 1\<rparr>], motion_mask = [1]\<rparr>"
proof -
  have ok: "frame_ok [10, 20, 30] 1 1 3" "frame_ok [110, 20, 30] 1 1 3"
    by (simp_all add: frame_ok_def)
  have "reachable 1 1 (fst (filter_impl initial_state [10, 20, 30] 1 1 3 3))"
    by (rule reachable.frame [OF reachable.start ok(1)])
  then have "reachable 1 1 (fst (filter_impl (fst (filter_impl initial_state [10, 20, 30] 1 1 3 3))
      [110, 20, 30] 1 1 3 3))"
    using ok(2) by (rule reachable.frame)
  then show ?thesis
    by (simp add: example_frame1 example_frame2)
qed

subsection \<open>A frame in the running state\<close>

lemma erosion_length: "length (erosion mm width height radius) = length mm"
  unfolding erosion_def Let_def
  by (rule for_loop2_inv [where I = "\<lambda>s. length s = length mm"]) simp_all

lemma dilation_length: "length (dilation mm width height radius) = length mm"
  unfolding dilation_def Let_def
  by (rule for_loop2_inv [where I = "\<lambda>s. length s = length mm"]) simp_all

lemma applyMorphologicalOpening_length:
  "length (applyMorphologicalOpening mm width height radius) = length mm"
  by (simp add: applyMorphologicalOpening_def erosion_length dilation_length)

lemma applyHysteresisThresholding_length:
  "length (applyHysteresisThresholding mm width height low_thresh high_thresh) = length mm"
  unfolding applyHysteresisThresholding_def
  by (rule for_loop2_inv [where I = "\<lambda>s. length s = length mm"]) simp_all

text \<open>The state the detector starts from: the motion map is allocated on first use.\<close>

lemma filter_impl_running:
  assumes "pixel_states st \<noteq> []"
  shows "filter_impl st buffer width height stride pixel_stride =
     (let st1 = detect_loop buffer width height stride
                  (if motion_mask st = []
                   then st\<lparr>motion_mask := replicate (nat (width * height)) 0\<rparr> else st);
          mm3 = applyHysteresisThresholding
                  (applyMorphologicalOpening (motion_mask st1) width height
                     (max 3 (min width height div 100))) width height 4 30
      in (st1\<lparr>motion_mask := mm3\<rparr>, composite_loop mm3 buffer width height stride))"
  using assms by (simp add: filter_impl_def Let_def)

lemma running_cells:
  assumes run: "pixel_states st \<noteq> []" and ok: "state_ok st width height"
  shows "length (pixel_states (fst (filter_impl st buffer width height stride pixel_stride)))
           = nat (width * height) \<and>
         length (motion_mask (fst (filter_impl st buffer width height stride pixel_stride)))
           = nat (width * height) \<and>
         (\<forall>y x. 0 \<le> y \<and> y < height \<and> 0 \<le> x \<and> x < width \<longrightarrow>
            pixel_states (fst (filter_impl st buffer width height stride pixel_stride))
              ! nat (y * width + x) =
            update_state (pixel_states st ! nat (y * width + x)) (read_pixel buffer stride y x))"
proof -
  let ?st0 = "if motion_mask st = []
              then st\<lparr>motion_mask := replicate (nat (width * height)) 0\<rparr> else st"
  have lp: "length (pixel_states ?st0) = nat (width * height)"
    using run ok by (simp add: state_ok_def)
  have lm: "length (motion_mask ?st0) = nat (width * height)"
    using ok by (auto simp: state_ok_def)
  have ps: "pixel_states ?st0 = pixel_states st"
    by simp
  note c = detect_loop_cells [OF lp lm, of buffer stride]
  show ?thesis
    using c unfolding ps
    by (simp add: filter_impl_running [OF run] Let_def applyHysteresisThresholding_length
        applyMorphologicalOpening_length)
qed

lemma running_preserved:
  assumes run: "pixel_states st \<noteq> []" and ok: "state_ok st width height"
  shows "pixel_states (fst (filter_impl st buffer width height stride pixel_stride)) \<noteq> [] \<and>
         state_ok (fst (filter_impl st buffer width height stride pixel_stride)) width height"
proof -
  have "length (pixel_states st) = nat (width * height)"
    using run ok by (simp add: state_ok_def)
  then have "0 < nat (width * height)"
    using run by (cases "pixel_states st") auto
  then show ?thesis
    using running_cells [OF run ok, of buffer stride pixel_stride]
    by (auto simp: state_ok_def)
qed

subsection \<open>Counting up to the adaptation threshold\<close>

lemma background_of_time [simp]: "background_of (s\<lparr>time := t\<rparr>) = background_of s"
  by (simp add: background_of_def)

lemma update_state_count:
  "25 \<le> colorDistance p (background_of s) \<Longrightarrow> time s < 100 \<Longrightarrow>
     update_state s p = s\<lparr>time := time s + 1\<rparr>"
  by (simp add: update_state_def)

lemma update_state_adapt:
  "25 \<le> colorDistance p (background_of s) \<Longrightarrow> time s = 100 \<Longrightarrow>
     update_state s p =
       \<lparr>bg_r = float_of_uint8 (r p), bg_g = float_of_uint8 (g p), bg_b = float_of_uint8 (b p),
        time = 0\<rparr>"
  by (simp add: update_state_def)

lemma run_frames_append:
  "run_frames st width height stride (fs @ gs) =
     run_frames (run_frames st width height stride fs) width height stride gs"
  by (induction fs arbitrary: st) simp_all

lemma run_frames_count:
  assumes "pixel_states st \<noteq> []" and "state_ok st width height"
    and "0 \<le> y" "y < height" "0 \<le> x" "x < width"
    and "\<forall>buffer\<in>set frames. 25 \<le> colorDistance (read_pixel buffer stride y x)
            (background_of (pixel_states st ! nat (y * width + x)))"
    and "time (pixel_states st ! nat (y * width + x)) + int (length frames) \<le> 100"
  shows "pixel_states (run_frames st width height stride frames) \<noteq> [] \<and>
         state_ok (run_frames st width height stride frames) width height \<and>
         pixel_states (run_frames st width height stride frames) ! nat (y * width + x) =
           (pixel_states st ! nat (y * width + x))
             \<lparr>time := time (pixel_states st ! nat (y * width + x)) + int (length frames)\<rparr>"
  using assms
proof (induction frames arbitrary: st)
  case Nil
  then show ?case
    by simp
next
  case (Cons buffer frames)
  let ?s = "pixel_states st ! nat (y * width + x)"
  let ?st' = "fst (filter_impl st buffer width height stride 3)"
  have far: "25 \<le> colorDistance (read_pixel buffer stride y x) (background_of ?s)"
    using Cons.prems(7) by simp
  have t: "time ?s < 100"
    using Cons.prems(8) by simp
  have s': "pixel_states ?st' ! nat (y * width + x) = ?s\<lparr>time := time ?s + 1\<rparr>"
    using running_cells [OF Cons.prems(1,2), of buffer stride 3] Cons.prems(3-6)
      update_state_count [OF far t] by simp
  have pres: "pixel_states ?st' \<noteq> []" "state_ok ?st' width height"
    using running_preserved [OF Cons.prems(1,2), of buffer stride 3] by simp_all
  have "pixel_states (run_frames ?st' width height stride frames) \<noteq> [] \<and>
        state_ok (run_frames ?st' width height stride frames) width height \<and>
        pixel_states (run_frames ?st' width height stride frames) ! nat (y * width + x) =
          (pixel_states ?st' ! nat (y * width + x))
            \<lparr>time := time (pixel_states ?st' ! nat (y * width + x)) + int (length frames)\<rparr>"
    using Cons.prems(3-8) pres by (intro Cons.IH) (simp_all add: s')
  then show ?case
    by (simp add: s' add.assoc)
qed

subsection \<open>The running minimum and maximum over the disk\<close>

lemma before_finite: "finite (before y0 h x0 w y x)"
proof (rule finite_subset)
  show "before y0 h x0 w y x \<subseteq> {y0..<h} \<times> {x0..<w}"
    by (auto simp: before_def)
  show "finite ({y0..<h} \<times> {x0..<w})"
    by simp
qed

lemma disk_eq:
  "disk radius = {p \<in> {- radius..<radius + 1} \<times> {- radius..<radius + 1}.
                   snd p * snd p + fst p * fst p \<le> radius * radius}"
  by (auto simp: disk_def)

lemma disk_finite: "finite (disk radius)"
  unfolding disk_eq by simp

lemma disk_origin: "0 \<le> radius \<Longrightarrow> (0, 0) \<in> disk radius"
  by (simp add: disk_def)

lemma erode_at_Min:
  "erode_at temp_mask width radius y x =
     Min (insert 255 ((\<lambda>(dy, dx). temp_mask ! nat ((y + dy) * width + (x + dx))) ` disk radius))"
proof -
  let ?f = "\<lambda>(dy, dx). temp_mask ! nat ((y + dy) * width + (x + dx))"
  let ?in = "\<lambda>p :: int \<times> int. snd p * snd p + fst p * fst p \<le> radius * radius"
  let ?J = "\<lambda>V m. finite V \<and> m = Min (insert 255 (?f ` {p \<in> V. ?in p}))"
  have "?J ({- radius..<radius + 1} \<times> {- radius..<radius + 1})
          (erode_at temp_mask width radius y x)"
    unfolding erode_at_def
  proof (rule for_loop2_rule [where J = ?J])
    show "?J {} 255"
      by simp
  next
    fix dy dx and m :: real
    let ?B = "before (- radius) (radius + 1) (- radius) (radius + 1) dy dx"
    assume j: "?J ?B m"
    have fin: "finite (?f ` {p \<in> ?B. ?in p})"
      using j by simp
    show "?J (insert (dy, dx) ?B)
            (if dx * dx + dy * dy \<le> radius * radius
             then min m (temp_mask ! nat ((y + dy) * width + (x + dx))) else m)"
    proof (cases "dx * dx + dy * dy \<le> radius * radius")
      case True
      then have "{p \<in> insert (dy, dx) ?B. ?in p} = insert (dy, dx) {p \<in> ?B. ?in p}"
        by auto
      then have "Min (insert 255 (?f ` {p \<in> insert (dy, dx) ?B. ?in p})) =
                 Min (insert (?f (dy, dx)) (insert 255 (?f ` {p \<in> ?B. ?in p})))"
        by (simp add: insert_commute)
      also have "\<dots> = min (?f (dy, dx)) (Min (insert 255 (?f ` {p \<in> ?B. ?in p})))"
        using fin by (intro Min_insert) simp_all
      finally show ?thesis
        using True j by (simp add: min.commute)
    next
      case False
      then have "{p \<in> insert (dy, dx) ?B. ?in p} = {p \<in> ?B. ?in p}"
        by auto
      then show ?thesis
        using False j by simp
    qed
  qed
  then show ?thesis
    by (simp add: disk_eq)
qed

lemma dilate_at_Max:
  "dilate_at temp_mask width radius y x =
     Max (insert 0 ((\<lambda>(dy, dx). temp_mask ! nat ((y + dy) * width + (x + dx))) ` disk radius))"
proof -
  let ?f = "\<lambda>(dy, dx). temp_mask ! nat ((y + dy) * width + (x + dx))"
  let ?in = "\<lambda>p :: int \<times> int. snd p * snd p + fst p * fst p \<le> radius * radius"
  let ?J = "\<lambda>V m. finite V \<and> m = Max (insert 0 (?f ` {p \<in> V. ?in p}))"
  have "?J ({- radius..<radius + 1} \<times> {- radius..<radius + 1})
          (dilate_at temp_mask width radius y x)"
    unfolding dilate_at_def
  proof (rule for_loop2_rule [where J = ?J])
    show "?J {} 0"
      by simp
  next
    fix dy dx and m :: real
    let ?B = "before (- radius) (radius + 1) (- radius) (radius + 1) dy dx"
    assume j: "?J ?B m"
    have fin: "finite (?f ` {p \<in> ?B. ?in p})"
      using j by simp
    show "?J (insert (dy, dx) ?B)
            (if dx * dx + dy * dy \<le> radius * radius
             then max m (temp_mask ! nat ((y + dy) * width + (x + dx))) else m)"
    proof (cases "dx * dx + dy * dy \<le> radius * radius")
      case True
      then have "{p \<in> insert (dy, dx) ?B. ?in p} = insert (dy, dx) {p \<in> ?B. ?in p}"
        by auto
      then have "Max (insert 0 (?f ` {p \<in> insert (dy, dx) ?B. ?in p})) =
                 Max (insert (?f (dy, dx)) (insert 0 (?f ` {p \<in> ?B. ?in p})))"
        by (simp add: insert_commute)
      also have "\<dots> = max (?f (dy, dx)) (Max (insert 0 (?f ` {p \<in> ?B. ?in p})))"
        using fin by (intro Max_insert) simp_all
      finally show ?thesis
        using True j by (simp add: max.commute)
    next
      case False
      then have "{p \<in> insert (dy, dx) ?B. ?in p} = {p \<in> ?B. ?in p}"
        by auto
      then show ?thesis
        using False j by simp
    qed
  qed
  then show ?thesis
    by (simp add: disk_eq)
qed

text \<open>An interior cell's disk stays inside the frame.\<close>

lemma disk_cell_in_frame:
  assumes "(dy, dx) \<in> disk radius"
    and "radius \<le> y" "y < height - radius" "radius \<le> x" "x < width - radius"
  shows "0 \<le> y + dy \<and> y + dy < height \<and> 0 \<le> x + dx \<and> x + dx < width"
  using assms by (auto simp: disk_def)

subsection \<open>A motion map of zeros\<close>

lemma erosion_zeros:
  assumes rad: "0 \<le> radius" and n: "n = nat (width * height)"
  shows "erosion (replicate n 0) width height radius = replicate n 0"
proof (rule nth_equalityI)
  show "length (erosion (replicate n 0) width height radius) = length (replicate n (0::real))"
    by (simp add: erosion_length)
next
  fix k
  assume "k < length (erosion (replicate n 0) width height radius)"
  then have k: "k < n"
    by (simp add: erosion_length)
  note c = erosion_cells [OF rad, of "replicate n 0" width height]
  show "erosion (replicate n 0) width height radius ! k = replicate n 0 ! k"
  proof (cases "\<exists>y x. radius \<le> y \<and> y < height - radius \<and> radius \<le> x \<and> x < width - radius \<and>
                   k = nat (y * width + x)")
    case True
    then obtain y x where yx: "radius \<le> y" "y < height - radius" "radius \<le> x" "x < width - radius"
      and kk: "k = nat (y * width + x)"
      by blast
    let ?A = "insert 255 ((\<lambda>(dy, dx). replicate n (0::real) ! nat ((y + dy) * width + (x + dx)))
                ` disk radius)"
    have zero: "replicate n (0::real) ! nat ((y + dy) * width + (x + dx)) = 0"
      if "(dy, dx) \<in> disk radius" for dy dx
    proof -
      have "nat ((y + dy) * width + (x + dx)) < n"
        unfolding n using disk_cell_in_frame [OF that yx] by (intro nat_cell_index_less) simp_all
      then show ?thesis
        by simp
    qed
    have "Min ?A = 0"
    proof (rule Min_eqI)
      show "finite ?A"
        by (simp add: disk_finite)
      show "0 \<le> v" if "v \<in> ?A" for v
        using that zero by auto
      have "(\<lambda>(dy, dx). replicate n (0::real) ! nat ((y + dy) * width + (x + dx))) (0, 0) = 0"
        using zero [OF disk_origin [OF rad]] by simp
      then show "0 \<in> ?A"
        using disk_origin [OF rad] by (metis (no_types, lifting) image_eqI insertI2)
    qed
    then have "erode_at (replicate n 0) width radius y x = 0"
      by (simp only: erode_at_Min)
    then show ?thesis
      using c yx kk k n by simp
  next
    case False
    then show ?thesis
      using c n by auto
  qed
qed

lemma dilation_zeros:
  assumes rad: "0 \<le> radius" and n: "n = nat (width * height)"
  shows "dilation (replicate n 0) width height radius = replicate n 0"
proof (rule nth_equalityI)
  show "length (dilation (replicate n 0) width height radius) = length (replicate n (0::real))"
    by (simp add: dilation_length)
next
  fix k
  assume "k < length (dilation (replicate n 0) width height radius)"
  then have k: "k < n"
    by (simp add: dilation_length)
  note c = dilation_cells [OF rad, of "replicate n 0" width height]
  show "dilation (replicate n 0) width height radius ! k = replicate n 0 ! k"
  proof (cases "\<exists>y x. radius \<le> y \<and> y < height - radius \<and> radius \<le> x \<and> x < width - radius \<and>
                   k = nat (y * width + x)")
    case True
    then obtain y x where yx: "radius \<le> y" "y < height - radius" "radius \<le> x" "x < width - radius"
      and kk: "k = nat (y * width + x)"
      by blast
    let ?A = "insert 0 ((\<lambda>(dy, dx). replicate n (0::real) ! nat ((y + dy) * width + (x + dx)))
                ` disk radius)"
    have zero: "replicate n (0::real) ! nat ((y + dy) * width + (x + dx)) = 0"
      if "(dy, dx) \<in> disk radius" for dy dx
    proof -
      have "nat ((y + dy) * width + (x + dx)) < n"
        unfolding n using disk_cell_in_frame [OF that yx] by (intro nat_cell_index_less) simp_all
      then show ?thesis
        by simp
    qed
    have "Max ?A = 0"
    proof (rule Max_eqI)
      show "finite ?A"
        by (simp add: disk_finite)
      show "v \<le> 0" if "v \<in> ?A" for v
        using that zero by auto
      show "0 \<in> ?A"
        by simp
    qed
    then have "dilate_at (replicate n 0) width radius y x = 0"
      by (simp only: dilate_at_Max)
    then show ?thesis
      using c yx kk k n by simp
  next
    case False
    then show ?thesis
      using c n by auto
  qed
qed

lemma hysteresis_zeros:
  assumes "0 < low_thresh" and "0 < high_thresh" and n: "n = nat (width * height)"
  shows "applyHysteresisThresholding (replicate n 0) width height low_thresh high_thresh =
           replicate n 0"
  unfolding applyHysteresisThresholding_def
proof (rule for_loop2_inv [where I = "\<lambda>s. s = replicate n 0"])
  show "replicate n (0::real) = replicate n 0" ..
next
  fix y x and s :: "real list"
  assume a: "0 \<le> y" "y < height" "0 \<le> x" "x < width" "s = replicate n 0"
  have k: "nat (y * width + x) < n"
    unfolding n using a(1-4) by (intro nat_cell_index_less)
  then have "hysteresis_value s width height low_thresh high_thresh y x = s ! nat (y * width + x)"
    using assms(1,2) a(5) by (simp add: hysteresis_value_def)
  then show "s[nat (y * width + x) := hysteresis_value s width height low_thresh high_thresh y x]
               = replicate n 0"
    using a(5) by simp
qed

lemma detect_loop_quiet:
  assumes "\<forall>y x. 0 \<le> y \<and> y < height \<and> 0 \<le> x \<and> x < width \<longrightarrow>
             colorDistance (read_pixel buffer stride y x)
               (background_of (pixel_states st ! nat (y * width + x))) < 25 \<and>
             time (pixel_states st ! nat (y * width + x)) = 0"
  shows "detect_loop buffer width height stride st = st"
  unfolding detect_loop_def
proof (rule for_loop2_inv [where I = "\<lambda>s. s = st"])
  show "st = st" ..
next
  fix y x and s :: filter_state
  assume a: "0 \<le> y" "y < height" "0 \<le> x" "x < width" "s = st"
  let ?e = "pixel_states st ! nat (y * width + x)"
  have q: "colorDistance (read_pixel buffer stride y x) (background_of ?e) < 25" "time ?e = 0"
    using assms a(1-4) by simp_all
  have "update_state ?e (read_pixel buffer stride y x) = ?e"
    using q by (simp add: update_state_def)
  then show "detect_pixel buffer width stride y x s = st"
    using q a(5) by (simp add: detect_pixel_def Let_def)
qed

lemma seed_loop_time:
  assumes "\<forall>e\<in>set ps0. time e = 0"
  shows "\<forall>e\<in>set (seed_loop buffer width height stride ps0). time e = 0"
  unfolding seed_loop_def
proof (rule for_loop2_inv [where I = "\<lambda>s. \<forall>e\<in>set s. time e = 0"])
  show "\<forall>e\<in>set ps0. time e = 0"
    by (rule assms)
next
  fix y x and s :: "PixelState list"
  assume a: "\<forall>e\<in>set s. time e = 0"
  show "\<forall>e\<in>set (seed_pixel buffer width stride y x s). time e = 0"
    unfolding seed_pixel_def Let_def
    by (rule list_all_update [OF a]) (use a in simp)
qed

lemma background_of_seeded:
  "background_of \<lparr>bg_r = float_of_uint8 (r p), bg_g = float_of_uint8 (g p),
                  bg_b = float_of_uint8 (b p), time = t\<rparr> = p"
  by (simp add: background_of_def)

subsection \<open>The mask after hysteresis is binary\<close>

lemma hysteresis_value_binary:
  "hysteresis_value mm width height low_thresh high_thresh y x \<in> {0, 1}"
  by (simp add: hysteresis_value_def Let_def)

lemma hysteresis_binary:
  assumes len: "length mm = nat (width * height)"
    and r: "0 \<le> y" "y < height" "0 \<le> x" "x < width"
  shows "applyHysteresisThresholding mm width height low_thresh high_thresh ! nat (y * width + x)
           \<in> {0, 1}"
proof -
  let ?J = "\<lambda>V s. length s = length mm \<and> (\<forall>(y, x) \<in> V. s ! nat (y * width + x) \<in> {0, 1})"
  have "?J ({0..<height} \<times> {0..<width})
          (applyHysteresisThresholding mm width height low_thresh high_thresh)"
    unfolding applyHysteresisThresholding_def
  proof (rule for_loop2_rule [where J = ?J])
    show "?J {} mm"
      by simp
  next
    fix y x and s :: "real list"
    let ?B = "before 0 height 0 width y x"
    assume a: "0 \<le> y" "y < height" "0 \<le> x" "x < width" and j: "?J ?B s"
    let ?s' = "s[nat (y * width + x) :=
                 hysteresis_value s width height low_thresh high_thresh y x]"
    have k: "nat (y * width + x) < length s"
      using j len nat_cell_index_less [OF a] by simp
    have "?s' ! nat (y' * width + x') \<in> {0, 1}" if "(y', x') \<in> insert (y, x) ?B" for y' x'
    proof (cases "(y', x') = (y, x)")
      case True
      then show ?thesis
        using k hysteresis_value_binary by simp
    next
      case False
      then have b: "(y', x') \<in> ?B"
        using that by blast
      then have "0 \<le> y'" "0 \<le> x'" "x' < width"
        by (simp_all add: before_def)
      then have "nat (y' * width + x') \<noteq> nat (y * width + x)"
        using nat_cell_index_inj [of y' x' width y x] a False by auto
      then show ?thesis
        using j b by auto
    qed
    then show "?J (insert (y, x) ?B) ?s'"
      using j by auto
  qed
  then show ?thesis
    using r by auto
qed

lemma highlight_eq: "highlight c = word_of_int (min 255 (uint c + 127))"
  by (simp add: highlight_def to_uint8_t_def)

subsection \<open>Two sweeps side by side\<close>

lemma for_loop_pair:
  "for_loop i n (\<lambda>j p. (fa j (fst p), fb j (snd p))) (a, c) = (for_loop i n fa a, for_loop i n fb c)"
proof (induction i n fa a arbitrary: c rule: for_loop.induct)
  case (1 i n fa a)
  show ?case
  proof (cases "i < n")
    case True
    then show ?thesis
      using "1.IH" [OF True, of "fb i c"]
      by (subst for_loop.simps, subst (2) for_loop.simps, subst (3) for_loop.simps) simp
  next
    case False
    then show ?thesis
      by (subst for_loop.simps, subst (2) for_loop.simps, subst (3) for_loop.simps) simp
  qed
qed

lemma for_loop2_pair:
  "(for_loop y0 h (\<lambda>y s. for_loop x0 w (\<lambda>x s. fa y x s) s) a,
    for_loop y0 h (\<lambda>y s. for_loop x0 w (\<lambda>x s. fb y x s) s) c) =
   for_loop y0 h (\<lambda>y p. for_loop x0 w (\<lambda>x p. (fa y x (fst p), fb y x (snd p))) p) (a, c)"
proof -
  have "for_loop x0 w (\<lambda>x p. (fa y x (fst p), fb y x (snd p))) p =
        (for_loop x0 w (\<lambda>x s. fa y x s) (fst p), for_loop x0 w (\<lambda>x s. fb y x s) (snd p))" for y p
    using for_loop_pair [of x0 w "\<lambda>x s. fa y x s" "\<lambda>x s. fb y x s" "fst p" "snd p"] by simp
  then show ?thesis
    using for_loop_pair [of y0 h "\<lambda>y s. for_loop x0 w (\<lambda>x s. fa y x s) s"
        "\<lambda>y s. for_loop x0 w (\<lambda>x s. fb y x s) s" a c]
    by simp
qed

lemma strong_neighbor_iff:
  "strong_neighbor mm width height high_thresh y x \<longleftrightarrow>
     (\<exists>dy\<in>{-1, 0, 1}. \<exists>dx\<in>{-1, 0, 1}.
        0 \<le> y + dy \<and> y + dy < height \<and> 0 \<le> x + dx \<and> x + dx < width \<and>
        high_thresh \<le> mm ! nat ((y + dy) * width + (x + dx)))"
  unfolding strong_neighbor_def list_ex_iff Let_def by simp

lemma strong_neighbor_mono:
  assumes sn: "strong_neighbor t width height high' y x"
    and hi: "high \<le> high'"
    and le: "\<And>ny nx. 0 \<le> ny \<Longrightarrow> ny < height \<Longrightarrow> 0 \<le> nx \<Longrightarrow> nx < width \<Longrightarrow>
               t ! nat (ny * width + nx) \<le> s ! nat (ny * width + nx)"
  shows "strong_neighbor s width height high y x"
proof -
  from sn obtain dy dx where d: "dy \<in> {-1, 0, 1}" "dx \<in> {-1, 0, 1}"
    and n: "0 \<le> y + dy" "y + dy < height" "0 \<le> x + dx" "x + dx < width"
    and v: "high' \<le> t ! nat ((y + dy) * width + (x + dx))"
    unfolding strong_neighbor_iff by blast
  have "high \<le> s ! nat ((y + dy) * width + (x + dx))"
    using hi v le [OF n] by linarith
  then show ?thesis
    unfolding strong_neighbor_iff using d n by blast
qed

lemma hysteresis_value_antitone:
  assumes hi: "high \<le> high'"
    and same: "t ! nat (y * width + x) = s ! nat (y * width + x)"
    and le: "\<And>ny nx. 0 \<le> ny \<Longrightarrow> ny < height \<Longrightarrow> 0 \<le> nx \<Longrightarrow> nx < width \<Longrightarrow>
               t ! nat (ny * width + nx) \<le> s ! nat (ny * width + nx)"
  shows "hysteresis_value t width height low high' y x \<le> hysteresis_value s width height low high y x"
proof (cases "strong_neighbor t width height high' y x")
  case True
  then have "strong_neighbor s width height high y x"
    using hi le by (rule strong_neighbor_mono)
  then show ?thesis
    using hi same by (simp add: hysteresis_value_def Let_def)
next
  case False
  then show ?thesis
    using hi same by (simp add: hysteresis_value_def Let_def)
qed

lemma hysteresis_antitone_cells:
  assumes hi: "high \<le> high'" and len: "length mm = nat (width * height)"
    and r: "0 \<le> y" "y < height" "0 \<le> x" "x < width"
  shows "applyHysteresisThresholding mm width height low high' ! nat (y * width + x) \<le>
         applyHysteresisThresholding mm width height low high ! nat (y * width + x)"
proof -
  let ?f = "\<lambda>hi y x (s :: real list). s[nat (y * width + x) :=
              hysteresis_value s width height low hi y x]"
  let ?J = "\<lambda>V (p :: real list \<times> real list).
      length (fst p) = length mm \<and> length (snd p) = length mm \<and>
      (\<forall>y x. 0 \<le> y \<and> y < height \<and> 0 \<le> x \<and> x < width \<longrightarrow>
         (if (y, x) \<in> V
          then snd p ! nat (y * width + x) \<le> fst p ! nat (y * width + x)
          else fst p ! nat (y * width + x) = mm ! nat (y * width + x) \<and>
               snd p ! nat (y * width + x) = mm ! nat (y * width + x)))"
  have pair: "(applyHysteresisThresholding mm width height low high,
               applyHysteresisThresholding mm width height low high') =
      for_loop 0 height (\<lambda>y p. for_loop 0 width
        (\<lambda>x p. (?f high y x (fst p), ?f high' y x (snd p))) p) (mm, mm)"
    unfolding applyHysteresisThresholding_def by (rule for_loop2_pair)
  have "?J ({0..<height} \<times> {0..<width})
          (for_loop 0 height (\<lambda>y p. for_loop 0 width
             (\<lambda>x p. (?f high y x (fst p), ?f high' y x (snd p))) p) (mm, mm))"
  proof (rule for_loop2_rule [where J = ?J])
    show "?J {} (mm, mm)"
      by simp
  next
    fix y x and p :: "real list \<times> real list"
    let ?B = "before 0 height 0 width y x"
    assume a: "0 \<le> y" "y < height" "0 \<le> x" "x < width" and j: "?J ?B p"
    obtain s t where p: "p = (s, t)"
      by (cases p)
    let ?i = "nat (y * width + x)"
    have ls: "length s = length mm" and lt: "length t = length mm"
      using j p by simp_all
    have inv: "if (ny, nx) \<in> ?B then t ! nat (ny * width + nx) \<le> s ! nat (ny * width + nx)
               else s ! nat (ny * width + nx) = mm ! nat (ny * width + nx) \<and>
                    t ! nat (ny * width + nx) = mm ! nat (ny * width + nx)"
      if "0 \<le> ny" "ny < height" "0 \<le> nx" "nx < width" for ny nx
      using j that unfolding p fst_conv snd_conv by blast
    have i: "?i < length mm"
      using len nat_cell_index_less [OF a] by simp
    have notin: "(y, x) \<notin> ?B"
      by (simp add: before_def)
    have same: "t ! ?i = s ! ?i"
      using inv [OF a] notin by simp
    have le: "t ! nat (ny * width + nx) \<le> s ! nat (ny * width + nx)"
      if "0 \<le> ny" "ny < height" "0 \<le> nx" "nx < width" for ny nx
      using inv [OF that] by (simp split: if_splits)
    have new: "hysteresis_value t width height low high' y x \<le>
               hysteresis_value s width height low high y x"
      using hi same le by (rule hysteresis_value_antitone)
    have "if (ny, nx) \<in> insert (y, x) ?B
          then (?f high' y x t) ! nat (ny * width + nx) \<le> (?f high y x s) ! nat (ny * width + nx)
          else (?f high y x s) ! nat (ny * width + nx) = mm ! nat (ny * width + nx) \<and>
               (?f high' y x t) ! nat (ny * width + nx) = mm ! nat (ny * width + nx)"
      if n: "0 \<le> ny" "ny < height" "0 \<le> nx" "nx < width" for ny nx
    proof (cases "(ny, nx) = (y, x)")
      case True
      then show ?thesis
        using new i ls lt by simp
    next
      case False
      then have "nat (ny * width + nx) \<noteq> ?i"
        using nat_cell_index_inj [of ny nx width y x] n a by auto
      then show ?thesis
        using inv [OF n] False by auto
    qed
    then show "?J (insert (y, x) ?B) (?f high y x (fst p), ?f high' y x (snd p))"
      using ls lt p by simp
  qed
  then show ?thesis
    using r by (simp add: pair [symmetric])
qed

subsection \<open>A third frame on the pixel, and a saturated erosion\<close>

lemma example_run2:
  "run_frames initial_state 1 1 3 [[10, 20, 30], [110, 20, 30]] =
     \<lparr>pixel_states = [\<lparr>bg_r = 10, bg_g = 20, bg_b = 30, time = 1\<rparr>], motion_mask = [1]\<rparr>"
  by (simp add: example_frame1 example_frame2)

lemma example_detect3:
  "detect_loop [10, 20, 30] 1 1 3
     \<lparr>pixel_states = [\<lparr>bg_r = 10, bg_g = 20, bg_b = 30, time = 1\<rparr>], motion_mask = [1]\<rparr> =
     \<lparr>pixel_states = [\<lparr>bg_r = 10, bg_g = 20, bg_b = 30, time = 0\<rparr>], motion_mask = [1]\<rparr>"
  by (simp add: detect_loop_def for_loop.simps detect_pixel_def update_state_def
      background_of_def to_uint8_t_def colorDistance_def read_pixel_def pixel_offset_def Let_def)

lemma erode_at_saturated:
  assumes "\<And>dy dx. (dy, dx) \<in> disk radius \<Longrightarrow>
             255 \<le> temp_mask ! nat ((y + dy) * width + (x + dx))"
  shows "erode_at temp_mask width radius y x = 255"
proof -
  let ?A = "insert 255 ((\<lambda>(dy, dx). temp_mask ! nat ((y + dy) * width + (x + dx))) ` disk radius)"
  have "Min ?A = 255"
  proof (rule Min_eqI)
    show "finite ?A"
      by (simp add: disk_finite)
    show "255 \<le> v" if "v \<in> ?A" for v
      using that assms by auto
    show "255 \<in> ?A"
      by simp
  qed
  then show ?thesis
    by (simp only: erode_at_Min)
qed

lemma erosion_interior:
  assumes "0 \<le> radius" and "length mm0 = nat (width * height)"
    and "radius \<le> y" "y < height - radius" "radius \<le> x" "x < width - radius"
  shows "erosion mm0 width height radius ! nat (y * width + x) = erode_at mm0 width radius y x"
  using erosion_cells [OF assms(1,2)] assms(3-6) by blast

subsection \<open>The in-place sweep in terms of the original map\<close>

lemma later_strong_neighbor_iff:
  "later_strong_neighbor mm width height high_thresh y x \<longleftrightarrow>
     (\<exists>dy\<in>{-1, 0, 1}. \<exists>dx\<in>{-1, 0, 1}.
        (0 < dy \<or> (dy = 0 \<and> 0 < dx)) \<and>
        0 \<le> y + dy \<and> y + dy < height \<and> 0 \<le> x + dx \<and> x + dx < width \<and>
        high_thresh \<le> mm ! nat ((y + dy) * width + (x + dx)))"
  unfolding later_strong_neighbor_def list_ex_iff by simp

lemma sweep_value_binary: "sweep_value mm width height low_thresh high_thresh y x \<in> {0, 1}"
  by (simp add: sweep_value_def Let_def)

lemma hysteresis_sweep_cell:
  assumes hi: "1 < high_thresh" and len: "length mm = nat (width * height)"
    and r: "0 \<le> y" "y < height" "0 \<le> x" "x < width"
  shows "applyHysteresisThresholding mm width height low_thresh high_thresh ! nat (y * width + x) =
           sweep_value mm width height low_thresh high_thresh y x"
proof -
  let ?J = "\<lambda>V (s :: real list). length s = length mm \<and>
      (\<forall>y x. 0 \<le> y \<and> y < height \<and> 0 \<le> x \<and> x < width \<longrightarrow>
         s ! nat (y * width + x) =
           (if (y, x) \<in> V then sweep_value mm width height low_thresh high_thresh y x
            else mm ! nat (y * width + x)))"
  have "?J ({0..<height} \<times> {0..<width})
          (applyHysteresisThresholding mm width height low_thresh high_thresh)"
    unfolding applyHysteresisThresholding_def
  proof (rule for_loop2_rule [where J = ?J])
    show "?J {} mm"
      by simp
  next
    fix y x and s :: "real list"
    let ?B = "before 0 height 0 width y x"
    let ?i = "nat (y * width + x)"
    assume a: "0 \<le> y" "y < height" "0 \<le> x" "x < width" and j: "?J ?B s"
    have ls: "length s = length mm"
      using j by simp
    have cell: "s ! nat (ny * width + nx) =
        (if (ny, nx) \<in> ?B then sweep_value mm width height low_thresh high_thresh ny nx
         else mm ! nat (ny * width + nx))"
      if "0 \<le> ny" "ny < height" "0 \<le> nx" "nx < width" for ny nx
      using j that by blast
    have i: "?i < length mm"
      using len nat_cell_index_less [OF a] by simp
    have own: "s ! ?i = mm ! ?i"
      using cell [OF a] by (simp add: before_def)
    have earlier: "s ! nat (ny * width + nx) < high_thresh"
      if "0 \<le> ny" "ny < height" "0 \<le> nx" "nx < width" "(ny, nx) \<in> ?B" for ny nx
    proof -
      have "s ! nat (ny * width + nx) \<in> {0, 1}"
        using cell [OF that(1-4)] that(5) sweep_value_binary by simp
      then show ?thesis
        using hi by auto
    qed
    have nb: "strong_neighbor s width height high_thresh y x \<longleftrightarrow>
              later_strong_neighbor mm width height high_thresh y x"
      if weak: "mm ! ?i < high_thresh"
    proof
      assume "strong_neighbor s width height high_thresh y x"
      then obtain dy dx where d: "dy \<in> {-1, 0, 1}" "dx \<in> {-1, 0, 1}"
        and n: "0 \<le> y + dy" "y + dy < height" "0 \<le> x + dx" "x + dx < width"
        and v: "high_thresh \<le> s ! nat ((y + dy) * width + (x + dx))"
        unfolding strong_neighbor_iff by blast
      have nB: "(y + dy, x + dx) \<notin> ?B"
        using earlier [OF n] v by auto
      have self: "\<not> (dy = 0 \<and> dx = 0)"
        using v own weak by auto
      have "\<not> (y + dy < y \<or> (y + dy = y \<and> x + dx < x))"
        using nB n by (simp add: before_def)
      then have later: "0 < dy \<or> (dy = 0 \<and> 0 < dx)"
        using self by arith
      have "s ! nat ((y + dy) * width + (x + dx)) = mm ! nat ((y + dy) * width + (x + dx))"
        using cell [OF n] nB by simp
      then have "high_thresh \<le> mm ! nat ((y + dy) * width + (x + dx))"
        using v by simp
      then show "later_strong_neighbor mm width height high_thresh y x"
        unfolding later_strong_neighbor_iff using d n later by blast
    next
      assume "later_strong_neighbor mm width height high_thresh y x"
      then obtain dy dx where d: "dy \<in> {-1, 0, 1}" "dx \<in> {-1, 0, 1}"
        and later: "0 < dy \<or> (dy = 0 \<and> 0 < dx)"
        and n: "0 \<le> y + dy" "y + dy < height" "0 \<le> x + dx" "x + dx < width"
        and v: "high_thresh \<le> mm ! nat ((y + dy) * width + (x + dx))"
        unfolding later_strong_neighbor_iff by blast
      have "(y + dy, x + dx) \<notin> ?B"
        using later by (simp add: before_def) arith
      then have "s ! nat ((y + dy) * width + (x + dx)) = mm ! nat ((y + dy) * width + (x + dx))"
        using cell [OF n] by simp
      then have "high_thresh \<le> s ! nat ((y + dy) * width + (x + dx))"
        using v by simp
      then show "strong_neighbor s width height high_thresh y x"
        unfolding strong_neighbor_iff using d n by blast
    qed
    have new: "hysteresis_value s width height low_thresh high_thresh y x =
               sweep_value mm width height low_thresh high_thresh y x"
      using own nb by (auto simp: hysteresis_value_def sweep_value_def Let_def)
    let ?s' = "s[?i := hysteresis_value s width height low_thresh high_thresh y x]"
    have "?s' ! nat (ny * width + nx) =
        (if (ny, nx) \<in> insert (y, x) ?B
         then sweep_value mm width height low_thresh high_thresh ny nx
         else mm ! nat (ny * width + nx))"
      if n: "0 \<le> ny" "ny < height" "0 \<le> nx" "nx < width" for ny nx
    proof (cases "(ny, nx) = (y, x)")
      case True
      then show ?thesis
        using new i ls by simp
    next
      case False
      then have "nat (ny * width + nx) \<noteq> ?i"
        using nat_cell_index_inj [of ny nx width y x] n a by auto
      then show ?thesis
        using cell [OF n] False by auto
    qed
    then show "?J (insert (y, x) ?B) ?s'"
      using ls by simp
  qed
  then show ?thesis
    using r by auto
qed

subsection \<open>The branch a pixel takes in the sweep\<close>



subsection \<open>Reachable states fit the geometry\<close>

lemma first_frame_cells:
  assumes empty: "pixel_states st = []"
  shows "motion_mask (fst (filter_impl st buffer width height stride pixel_stride)) = motion_mask st \<and>
         length (pixel_states (fst (filter_impl st buffer width height stride pixel_stride)))
           = nat (width * height) \<and>
         (\<forall>y x. 0 \<le> y \<and> y < height \<and> 0 \<le> x \<and> x < width \<longrightarrow>
            time (pixel_states (fst (filter_impl st buffer width height stride pixel_stride))
                    ! nat (y * width + x)) = 0)"
proof -
  let ?ps0 = "replicate (nat (width * height)) \<lparr>bg_r = 0, bg_g = 0, bg_b = 0, time = 0\<rparr>"
  have f: "fst (filter_impl st buffer width height stride pixel_stride) =
             st\<lparr>pixel_states := seed_loop buffer width height stride ?ps0\<rparr>"
    using empty by (simp add: filter_impl_def Let_def)
  have len: "length (seed_loop buffer width height stride ?ps0) = nat (width * height)"
    using seed_loop_cells [of ?ps0 width height buffer stride] by simp
  have "\<forall>e\<in>set (seed_loop buffer width height stride ?ps0). time e = 0"
    by (rule seed_loop_time) simp
  then have "time (seed_loop buffer width height stride ?ps0 ! nat (y * width + x)) = 0"
    if "0 \<le> y" "y < height" "0 \<le> x" "x < width" for y x
    using len nat_cell_index_less [OF that] by simp
  then show ?thesis
    using len by (simp add: f)
qed

lemma reachable_state_ok: "reachable width height st \<Longrightarrow> state_ok st width height"
proof (induction rule: reachable.induct)
  case start
  then show ?case
    by (simp add: state_ok_def initial_state_def)
next
  case (frame st buffer stride pixel_stride)
  show ?case
  proof (cases "pixel_states st = []")
    case True
    then show ?thesis
      using first_frame_cells [OF True, of buffer width height stride pixel_stride] frame.IH
      by (simp add: state_ok_def)
  next
    case False
    then show ?thesis
      using running_preserved [OF False frame.IH] by simp
  qed
qed

lemma update_state_time:
  "time (update_state s p) =
     (if colorDistance p (background_of s) < 25 then 0
      else if time s + 1 > 100 then 0 else time s + 1)"
  by (simp add: update_state_def)

subsection \<open>A third changed frame on the pixel\<close>

lemma example_detect2b:
  "detect_loop [110, 20, 30] 1 1 3
     \<lparr>pixel_states = [\<lparr>bg_r = 10, bg_g = 20, bg_b = 30, time = 1\<rparr>], motion_mask = [1]\<rparr> =
     \<lparr>pixel_states = [\<lparr>bg_r = 10, bg_g = 20, bg_b = 30, time = 2\<rparr>], motion_mask = [100]\<rparr>"
  by (simp add: detect_loop_def for_loop.simps detect_pixel_def update_state_def
      background_of_def to_uint8_t_def colorDistance_def read_pixel_def pixel_offset_def Let_def)

lemma example_frame2b:
  "filter_impl \<lparr>pixel_states = [\<lparr>bg_r = 10, bg_g = 20, bg_b = 30, time = 1\<rparr>], motion_mask = [1]\<rparr>
     [110, 20, 30] 1 1 3 3 =
     (\<lparr>pixel_states = [\<lparr>bg_r = 10, bg_g = 20, bg_b = 30, time = 2\<rparr>], motion_mask = [1]\<rparr>,
      [237, 20, 30])"
  by (simp add: filter_impl_def example_detect2b example_opening example_hysteresis2
      example_composite2)

lemma example_reachable2:
  "reachable 1 1 \<lparr>pixel_states = [\<lparr>bg_r = 10, bg_g = 20, bg_b = 30, time = 2\<rparr>], motion_mask = [1]\<rparr>"
proof -
  have "frame_ok [110, 20, 30] 1 1 3"
    by (simp add: frame_ok_def)
  then have "reachable 1 1 (fst (filter_impl
      \<lparr>pixel_states = [\<lparr>bg_r = 10, bg_g = 20, bg_b = 30, time = 1\<rparr>], motion_mask = [1]\<rparr>
      [110, 20, 30] 1 1 3 3))"
    by (rule reachable.frame [OF example_reachable])
  then show ?thesis
    by (simp add: example_frame2b)
qed

section \<open>The claims\<close>

subsection \<open>C1: what a weak pixel's promotion depends on\<close>

text \<open>
  Claim C1 says that a weak pixel (value at least 4 and below 30) is promoted to 1 exactly
  when one of its up to 8 neighbours had an original, pre-sweep value of at least 30,
  whatever the sweep has already written to the neighbours it visited. The code sweeps in
  place: a neighbour visited earlier holds 0 or 1 by then, never 30 or more, so a strong
  neighbour to the left or above is not seen (lemma \<open>hysteresis_sweep_cell\<close>: for a high
  threshold above 1 only the neighbours to the right in the same row and in the row below
  count). In a row of two pixels the weak pixel next to the strong one is demoted when the
  strong one comes first and promoted when it comes second.
\<close>

theorem hysteresis_in_place_sweep:
  "applyHysteresisThresholding [50, 10] 2 1 4 30 = [1, 0] \<and>
   applyHysteresisThresholding [10, 50] 2 1 4 30 = [1, 1]"
  by (simp add: applyHysteresisThresholding_def hysteresis_value_def strong_neighbor_def
      for_loop.simps)

subsection \<open>C2: what the detector leaves in the motion map\<close>

text \<open>
  Claim C2 says that on every frame after the first the detector overwrites the whole
  motion map, a pixel closer than 25 to its estimate getting 0. The code writes the map only
  where the distance is at least 25 (lemma \<open>detect_loop_cells\<close>). After the frames (10, 20, 30) and (110, 20, 30) on one
  pixel the mask is 1; on a third frame (10, 20, 30), at distance 0 from the estimate, the
  detector leaves that 1 in the map.
\<close>

theorem detector_keeps_stale_mask:
  "motion_mask (run_frames initial_state 1 1 3 [[10, 20, 30], [110, 20, 30]]) = [1] \<and>
   colorDistance (read_pixel [10, 20, 30] 3 0 0)
     (background_of
        (pixel_states (run_frames initial_state 1 1 3 [[10, 20, 30], [110, 20, 30]]) ! 0)) = 0 \<and>
   motion_mask (detect_loop [10, 20, 30] 1 1 3
     (run_frames initial_state 1 1 3 [[10, 20, 30], [110, 20, 30]])) = [1]"
  unfolding example_run2 example_detect3
  by (simp add: colorDistance_def read_pixel_def pixel_offset_def background_of_def
      to_uint8_t_def)

subsection \<open>C3: erosion of intensities above 255\<close>

text \<open>
  Claim C3 says that the erosion pass gives an interior pixel the minimum of the map over
  its disk, for arbitrary non-negative intensities, also above 255. The running minimum of
  the code starts at 255, so the result is the minimum of 255 and the disk's values (lemmas
  \<open>erosion_interior\<close> and \<open>erode_at_Min\<close>): on a 7 by 7 map that is 300 everywhere (the
  distance between (200, 200, 100) and (0, 0, 0)), with radius 3, the one interior pixel
  gets 255 while the minimum over its disk is 300.
\<close>

theorem erosion_saturates_at_255:
  "set (replicate 49 (300::real)) = {300} \<and>
   colorDistance \<lparr>r = 200, g = 200, b = 100\<rparr> \<lparr>r = 0, g = 0, b = 0\<rparr> = 300 \<and>
   erosion (replicate 49 300) 7 7 3 ! nat (3 * 7 + 3) = 255"
proof -
  have "erode_at (replicate 49 300) 7 3 3 3 = 255"
  proof (rule erode_at_saturated)
    fix dy dx :: int
    assume "(dy, dx) \<in> disk 3"
    then have "0 \<le> 3 + dy \<and> 3 + dy < 7 \<and> 0 \<le> 3 + dx \<and> 3 + dx < 7"
      by (intro disk_cell_in_frame [where radius = 3]) simp_all
    then have "nat ((3 + dy) * 7 + (3 + dx)) < nat (7 * 7)"
      by (intro nat_cell_index_less) simp_all
    then show "255 \<le> replicate 49 (300::real) ! nat ((3 + dy) * 7 + (3 + dx))"
      by simp
  qed
  moreover have "erosion (replicate 49 300) 7 7 3 ! nat (3 * 7 + 3) =
      erode_at (replicate 49 300) 7 3 3 3"
    using erosion_interior [of 3 "replicate 49 300" 7 7 3 3] by simp
  moreover have "sqrt 90000 = 300"
    by (rule real_sqrt_unique) simp_all
  ultimately show ?thesis
    by (simp add: colorDistance_def)
qed

subsection \<open>C4: raising the high threshold\<close>



subsection \<open>C5: the first frame\<close>

text \<open>
  Claim C5. On the very first frame processed (the PixelState array is empty) the call
  seeds every pixel's background estimate with exactly that frame's pixel colour and counter
  0, runs no detection and produces no mask (the motion map is left as it was), and returns
  the frame buffer unmodified.
\<close>

theorem cold_start:
  assumes empty: "pixel_states st = []"
    and ok: "frame_ok buffer width height stride"
    and r: "0 \<le> y" "y < height" "0 \<le> x" "x < width"
  shows "snd (filter_impl st buffer width height stride pixel_stride) = buffer \<and>
         motion_mask (fst (filter_impl st buffer width height stride pixel_stride)) = motion_mask st \<and>
         length (pixel_states (fst (filter_impl st buffer width height stride pixel_stride)))
           = nat (width * height) \<and>
         pixel_states (fst (filter_impl st buffer width height stride pixel_stride)) ! nat (y * width + x)
           = \<lparr>bg_r = float_of_uint8 (r (read_pixel buffer stride y x)),
              bg_g = float_of_uint8 (g (read_pixel buffer stride y x)),
              bg_b = float_of_uint8 (b (read_pixel buffer stride y x)),
              time = 0\<rparr>"
proof -
  let ?ps0 = "replicate (nat (width * height)) \<lparr>bg_r = 0, bg_g = 0, bg_b = 0, time = 0\<rparr>"
  have f: "filter_impl st buffer width height stride pixel_stride =
             (st\<lparr>pixel_states := seed_loop buffer width height stride ?ps0\<rparr>, buffer)"
    using empty by (simp add: filter_impl_def Let_def)
  have i: "nat (y * width + x) < nat (width * height)"
    using r by (rule nat_cell_index_less)
  have c: "length (seed_loop buffer width height stride ?ps0) = length ?ps0"
    "seed_loop buffer width height stride ?ps0 ! nat (y * width + x) =
       (?ps0 ! nat (y * width + x))
         \<lparr>bg_r := float_of_uint8 (r (read_pixel buffer stride y x)),
          bg_g := float_of_uint8 (g (read_pixel buffer stride y x)),
          bg_b := float_of_uint8 (b (read_pixel buffer stride y x))\<rparr>"
    using seed_loop_cells [of ?ps0 width height buffer stride] r by simp_all
  show ?thesis
    using c i by (simp add: f)
qed

text \<open>A 2 by 1 frame on the initial state: the second pixel is seeded with (40, 50, 60).\<close>

theorem cold_start_witness:
  "pixel_states initial_state = [] \<and> frame_ok [10, 20, 30, 40, 50, 60] 2 1 6 \<and>
   snd (filter_impl initial_state [10, 20, 30, 40, 50, 60] 2 1 6 3) = [10, 20, 30, 40, 50, 60] \<and>
   motion_mask (fst (filter_impl initial_state [10, 20, 30, 40, 50, 60] 2 1 6 3)) = [] \<and>
   length (pixel_states (fst (filter_impl initial_state [10, 20, 30, 40, 50, 60] 2 1 6 3))) = 2 \<and>
   pixel_states (fst (filter_impl initial_state [10, 20, 30, 40, 50, 60] 2 1 6 3)) ! 1
     = \<lparr>bg_r = 40, bg_g = 50, bg_b = 60, time = 0\<rparr>"
proof -
  have e: "pixel_states initial_state = []"
    by (simp add: initial_state_def)
  have ok: "frame_ok [10, 20, 30, 40, 50, 60] 2 1 6"
    by (simp add: frame_ok_def)
  show ?thesis
    using e ok cold_start [OF e ok, of 0 1 3]
    by (simp add: initial_state_def read_pixel_def pixel_offset_def float_of_uint8_def)
qed

subsection \<open>C6: adaptation after 101 frames of change\<close>

text \<open>
  Claim C6. Take a pixel position whose counter is 0 and whose colour distance to the stored
  background estimate is at least 25 on each of 101 consecutive frames processed after cold
  start. None of the first 100 of them changes the estimate (after \<open>k \<le> 100\<close> frames only
  the counter has moved, to \<open>k\<close>), and the 101st overwrites the estimate with the pixel
  colour of that frame and resets the counter to 0.
\<close>

theorem adaptation:
  assumes "pixel_states st \<noteq> []" and "state_ok st width height"
    and "0 \<le> y" "y < height" "0 \<le> x" "x < width"
    and "\<forall>buffer\<in>set frames. frame_ok buffer width height stride"
    and "time (pixel_states st ! nat (y * width + x)) = 0"
    and "length frames = 101"
    and "\<forall>buffer\<in>set frames. 25 \<le> colorDistance (read_pixel buffer stride y x)
            (background_of (pixel_states st ! nat (y * width + x)))"
    and "k \<le> 100"
  shows "pixel_states (run_frames st width height stride (take k frames)) ! nat (y * width + x) =
           (pixel_states st ! nat (y * width + x))\<lparr>time := int k\<rparr> \<and>
         pixel_states (run_frames st width height stride frames) ! nat (y * width + x) =
           \<lparr>bg_r = float_of_uint8 (r (read_pixel (frames ! 100) stride y x)),
            bg_g = float_of_uint8 (g (read_pixel (frames ! 100) stride y x)),
            bg_b = float_of_uint8 (b (read_pixel (frames ! 100) stride y x)),
            time = 0\<rparr>"
proof -
  let ?s = "pixel_states st ! nat (y * width + x)"
  have far: "\<forall>buffer\<in>set (take n frames). 25 \<le> colorDistance (read_pixel buffer stride y x)
            (background_of ?s)" for n
    using assms(10) by (meson in_set_takeD)
  have count: "pixel_states (run_frames st width height stride (take n frames)) \<noteq> [] \<and>
         state_ok (run_frames st width height stride (take n frames)) width height \<and>
         pixel_states (run_frames st width height stride (take n frames)) ! nat (y * width + x) =
           ?s\<lparr>time := int n\<rparr>" if "n \<le> 100" for n
    using run_frames_count [OF assms(1-6) far [of n]] that assms(8,9) by simp
  let ?st100 = "run_frames st width height stride (take 100 frames)"
  have split: "frames = take 100 frames @ [frames ! 100]"
    using assms(9) by (simp add: take_Suc_conv_app_nth [symmetric])
  have "frames ! 100 \<in> set frames"
    using assms(9) by simp
  then have "25 \<le> colorDistance (read_pixel (frames ! 100) stride y x)
      (background_of (?s\<lparr>time := 100\<rparr>))"
    using assms(10) by simp
  then have "update_state (?s\<lparr>time := 100\<rparr>) (read_pixel (frames ! 100) stride y x) =
      \<lparr>bg_r = float_of_uint8 (r (read_pixel (frames ! 100) stride y x)),
       bg_g = float_of_uint8 (g (read_pixel (frames ! 100) stride y x)),
       bg_b = float_of_uint8 (b (read_pixel (frames ! 100) stride y x)),
       time = 0\<rparr>"
    by (intro update_state_adapt) simp_all
  moreover have "pixel_states (fst (filter_impl ?st100 (frames ! 100) width height stride 3))
        ! nat (y * width + x) =
      update_state (?s\<lparr>time := 100\<rparr>) (read_pixel (frames ! 100) stride y x)"
    using running_cells [of ?st100 width height "frames ! 100" stride 3] count [of 100] assms(3-6)
    by simp
  moreover have "run_frames st width height stride frames =
      fst (filter_impl ?st100 (frames ! 100) width height stride 3)"
    by (subst split) (simp only: run_frames_append run_frames.simps)
  ultimately show ?thesis
    using count [OF assms(11)] by simp
qed

text \<open>
  One pixel with estimate (10, 20, 30) and 101 frames showing (110, 20, 30): the counter
  stands at 100 after the 100th frame, and the 101st stores (110, 20, 30).
\<close>

theorem adaptation_witness:
  "state_ok \<lparr>pixel_states = [\<lparr>bg_r = 10, bg_g = 20, bg_b = 30, time = 0\<rparr>], motion_mask = []\<rparr> 1 1 \<and>
   frame_ok [110, 20, 30] 1 1 3 \<and>
   25 \<le> colorDistance (read_pixel [110, 20, 30] 3 0 0)
          (background_of \<lparr>bg_r = 10, bg_g = 20, bg_b = 30, time = 0\<rparr>) \<and>
   pixel_states (run_frames
       \<lparr>pixel_states = [\<lparr>bg_r = 10, bg_g = 20, bg_b = 30, time = 0\<rparr>], motion_mask = []\<rparr>
       1 1 3 (replicate 100 [110, 20, 30])) ! 0 =
     \<lparr>bg_r = 10, bg_g = 20, bg_b = 30, time = 100\<rparr> \<and>
   pixel_states (run_frames
       \<lparr>pixel_states = [\<lparr>bg_r = 10, bg_g = 20, bg_b = 30, time = 0\<rparr>], motion_mask = []\<rparr>
       1 1 3 (replicate 101 [110, 20, 30])) ! 0 =
     \<lparr>bg_r = 110, bg_g = 20, bg_b = 30, time = 0\<rparr>"
  using adaptation [of "\<lparr>pixel_states = [\<lparr>bg_r = 10, bg_g = 20, bg_b = 30, time = 0\<rparr>],
      motion_mask = []\<rparr>" 1 1 0 0 "replicate 101 [110, 20, 30]" 3 100]
  by (simp add: state_ok_def frame_ok_def background_of_def to_uint8_t_def colorDistance_def
      read_pixel_def pixel_offset_def float_of_uint8_def)

subsection \<open>C7: the compositor\<close>

text \<open>
  Claim C7. On a frame processed in the running state, every pixel whose final mask value is
  not zero gets its red channel increased by 127, which is \<^verbatim>\<open>uint8_t(0.5f * 255)\<close>, the sum
  clamped to 255, and keeps its green and blue channels; a pixel whose final mask value is
  zero is unchanged; and nothing else in the frame buffer is written: every byte that is
  not the red byte of a pixel of the frame is what it was.
\<close>

theorem compositor_effect:
  assumes run: "pixel_states st \<noteq> []" and ok: "state_ok st width height"
    and fok: "frame_ok buffer width height stride"
    and r: "0 \<le> y" "y < height" "0 \<le> x" "x < width"
  shows "length (snd (filter_impl st buffer width height stride pixel_stride)) = length buffer \<and>
         read_pixel (snd (filter_impl st buffer width height stride pixel_stride)) stride y x =
           (if motion_mask (fst (filter_impl st buffer width height stride pixel_stride))
                 ! nat (y * width + x) \<noteq> 0
            then (read_pixel buffer stride y x)
                   \<lparr>r := word_of_int (min 255 (uint (r (read_pixel buffer stride y x)) + 127))\<rparr>
            else read_pixel buffer stride y x) \<and>
         (\<forall>k < length buffer.
              (\<forall>y' x'. 0 \<le> y' \<and> y' < height \<and> 0 \<le> x' \<and> x' < width
                  \<longrightarrow> k \<noteq> pixel_offset stride y' x') \<longrightarrow>
              snd (filter_impl st buffer width height stride pixel_stride) ! k = buffer ! k)"
proof -
  define st0 where "st0 = (if motion_mask st = []
              then st\<lparr>motion_mask := replicate (nat (width * height)) 0\<rparr> else st)"
  define st1 where "st1 = detect_loop buffer width height stride st0"
  define mm3 where "mm3 = applyHysteresisThresholding
      (applyMorphologicalOpening (motion_mask st1) width height
         (max 3 (min width height div 100))) width height 4 30"
  define out where "out = composite_loop mm3 buffer width height stride"
  have f: "filter_impl st buffer width height stride pixel_stride =
             (st1\<lparr>motion_mask := mm3\<rparr>, out)"
    by (simp add: filter_impl_running [OF run] Let_def st0_def st1_def mm3_def out_def)
  have lp: "length (pixel_states st0) = nat (width * height)"
    using run ok by (simp add: state_ok_def st0_def)
  have lm: "length (motion_mask st0) = nat (width * height)"
    using ok by (auto simp: state_ok_def st0_def)
  have "length (motion_mask st1) = nat (width * height)"
    unfolding st1_def using detect_loop_cells [OF lp lm, of buffer stride] by blast
  then have "length (applyMorphologicalOpening (motion_mask st1) width height
         (max 3 (min width height div 100))) = nat (width * height)"
    by (simp add: applyMorphologicalOpening_length)
  then have bin: "mm3 ! nat (y * width + x) \<in> {0, 1}"
    unfolding mm3_def using r by (rule hysteresis_binary)
  note c = composite_loop_cells [OF fok, of mm3, folded out_def]
  have c_len: "length out = length buffer"
    using c by blast
  have c_own: "out ! pixel_offset stride y x =
      (if mm3 ! nat (y * width + x) > 0 then highlight (buffer ! pixel_offset stride y x)
       else buffer ! pixel_offset stride y x)"
    using c r by blast
  have c_other: "out ! k = buffer ! k"
    if "\<forall>y' x'. 0 \<le> y' \<and> y' < height \<and> 0 \<le> x' \<and> x' < width \<longrightarrow> k \<noteq> pixel_offset stride y' x'"
    for k
    using c that by blast
  have s: "3 * width \<le> stride"
    using fok by (simp add: frame_ok_def)
  have other: "pixel_offset stride y x + d \<noteq> pixel_offset stride y' x'"
    if "0 \<le> y' \<and> y' < height \<and> 0 \<le> x' \<and> x' < width" "d = 1 \<or> d = 2" for y' x' d
  proof
    assume "pixel_offset stride y x + d = pixel_offset stride y' x'"
    then have "int (pixel_offset stride y x) + int d = int (pixel_offset stride y' x') + 0"
      by simp
    then have "int d = 0"
      using pixel_offset_inj [OF s r(1,3,4), of y' x' "int d" 0] that by fastforce
    then show False
      using that(2) by simp
  qed
  have mm3_pos: "(mm3 ! nat (y * width + x) > 0) = (mm3 ! nat (y * width + x) \<noteq> 0)"
    using bin by auto
  have red: "out ! pixel_offset stride y x =
      (if mm3 ! nat (y * width + x) \<noteq> 0 then highlight (buffer ! pixel_offset stride y x)
       else buffer ! pixel_offset stride y x)"
    using c_own by (simp only: mm3_pos)
  have green: "out ! (pixel_offset stride y x + 1) = buffer ! (pixel_offset stride y x + 1)"
    by (rule c_other) (use other [of _ _ 1] in blast)
  have blue: "out ! (pixel_offset stride y x + 2) = buffer ! (pixel_offset stride y x + 2)"
    by (rule c_other) (use other [of _ _ 2] in blast)
  have "read_pixel out stride y x =
           (if mm3 ! nat (y * width + x) \<noteq> 0
            then (read_pixel buffer stride y x)
                   \<lparr>r := word_of_int (min 255 (uint (r (read_pixel buffer stride y x)) + 127))\<rparr>
            else read_pixel buffer stride y x)"
    unfolding read_pixel_def red green blue highlight_eq by simp
  then show ?thesis
    using c_len c_other by (simp add: f)
qed

text \<open>
  The second frame of the run on one pixel: the pixel (110, 20, 30) is 100 away from the
  estimate, its mask value is 1, and it comes back as (237, 20, 30).
\<close>

theorem compositor_effect_witness:
  "state_ok \<lparr>pixel_states = [\<lparr>bg_r = 10, bg_g = 20, bg_b = 30, time = 0\<rparr>], motion_mask = []\<rparr> 1 1 \<and>
   frame_ok [110, 20, 30] 1 1 3 \<and>
   motion_mask (fst (filter_impl
      \<lparr>pixel_states = [\<lparr>bg_r = 10, bg_g = 20, bg_b = 30, time = 0\<rparr>], motion_mask = []\<rparr>
      [110, 20, 30] 1 1 3 3)) ! 0 = 1 \<and>
   read_pixel (snd (filter_impl
      \<lparr>pixel_states = [\<lparr>bg_r = 10, bg_g = 20, bg_b = 30, time = 0\<rparr>], motion_mask = []\<rparr>
      [110, 20, 30] 1 1 3 3)) 3 0 0 = \<lparr>r = 237, g = 20, b = 30\<rparr>"
proof -
  let ?st = "\<lparr>pixel_states = [\<lparr>bg_r = 10, bg_g = 20, bg_b = 30, time = 0\<rparr>], motion_mask = []\<rparr>"
  have run: "pixel_states ?st \<noteq> []"
    by simp
  have ok: "state_ok ?st 1 1"
    by (simp add: state_ok_def)
  have fok: "frame_ok [110, 20, 30] 1 1 3"
    by (simp add: frame_ok_def)
  have m: "motion_mask (fst (filter_impl ?st [110, 20, 30] 1 1 3 3)) ! 0 = 1"
    by (simp add: example_frame2)
  show ?thesis
    using compositor_effect [OF run ok fok, of 0 0 3] ok fok m
    by (simp add: read_pixel_def pixel_offset_def)
qed

subsection \<open>C8: a second frame close to the first\<close>

text \<open>
  Claim C8. If the second frame ever processed differs from the first, seeding frame by a
  colour distance strictly below 25 at every pixel, then the second call ends with a motion
  mask of zeros only and with every pixel's counter at 0.
\<close>

theorem noise_insensitivity:
  assumes ok1: "frame_ok buffer1 width height stride1"
    and ok2: "frame_ok buffer2 width height stride2"
    and near: "\<forall>y x. 0 \<le> y \<and> y < height \<and> 0 \<le> x \<and> x < width \<longrightarrow>
        colorDistance (read_pixel buffer2 stride2 y x) (read_pixel buffer1 stride1 y x) < 25"
  shows "motion_mask (fst (filter_impl
             (fst (filter_impl initial_state buffer1 width height stride1 pixel_stride1))
             buffer2 width height stride2 pixel_stride2)) = replicate (nat (width * height)) 0 \<and>
         length (pixel_states (fst (filter_impl
             (fst (filter_impl initial_state buffer1 width height stride1 pixel_stride1))
             buffer2 width height stride2 pixel_stride2))) = nat (width * height) \<and>
         (\<forall>s\<in>set (pixel_states (fst (filter_impl
             (fst (filter_impl initial_state buffer1 width height stride1 pixel_stride1))
             buffer2 width height stride2 pixel_stride2))). time s = 0)"
proof -
  let ?n = "nat (width * height)"
  let ?zero = "\<lparr>bg_r = 0, bg_g = 0, bg_b = 0, time = 0\<rparr>"
  let ?ps1 = "seed_loop buffer1 width height stride1 (replicate ?n ?zero)"
  let ?st1 = "\<lparr>pixel_states = ?ps1, motion_mask = []\<rparr>"
  have st1: "fst (filter_impl initial_state buffer1 width height stride1 pixel_stride1) = ?st1"
    by (simp add: filter_impl_def initial_state_def Let_def)
  have len1: "length ?ps1 = ?n"
    using seed_loop_cells [of "replicate ?n ?zero" width height buffer1 stride1] by simp
  have time1: "\<forall>e\<in>set ?ps1. time e = 0"
    by (rule seed_loop_time) simp
  show ?thesis
  proof (cases "?n = 0")
    case True
    then have e1: "?ps1 = []"
      using len1 by simp
    have "length (seed_loop buffer2 width height stride2 (replicate ?n ?zero)) = ?n"
      using seed_loop_cells [of "replicate ?n ?zero" width height buffer2 stride2] by simp
    then have e2: "seed_loop buffer2 width height stride2 (replicate ?n ?zero) = []"
      using True by simp
    have "fst (filter_impl \<lparr>pixel_states = [], motion_mask = []\<rparr>
            buffer2 width height stride2 pixel_stride2) = \<lparr>pixel_states = [], motion_mask = []\<rparr>"
      by (simp add: filter_impl_def Let_def e2)
    moreover have "fst (filter_impl initial_state buffer1 width height stride1 pixel_stride1) =
        \<lparr>pixel_states = [], motion_mask = []\<rparr>"
      by (simp only: st1 e1)
    ultimately show ?thesis
      using True by simp
  next
    case False
    then have run: "pixel_states ?st1 \<noteq> []"
      using len1 by auto
    let ?st0 = "\<lparr>pixel_states = ?ps1, motion_mask = replicate ?n 0\<rparr>"
    have cell: "?ps1 ! nat (y * width + x) =
        \<lparr>bg_r = float_of_uint8 (r (read_pixel buffer1 stride1 y x)),
         bg_g = float_of_uint8 (g (read_pixel buffer1 stride1 y x)),
         bg_b = float_of_uint8 (b (read_pixel buffer1 stride1 y x)), time = 0\<rparr>"
      if "0 \<le> y" "y < height" "0 \<le> x" "x < width" for y x
      using seed_loop_cells [of "replicate ?n ?zero" width height buffer1 stride1] that
        nat_cell_index_less [OF that] by simp
    have quiet: "detect_loop buffer2 width height stride2 ?st0 = ?st0"
    proof (rule detect_loop_quiet, intro allI impI)
      fix y x
      assume "0 \<le> y \<and> y < height \<and> 0 \<le> x \<and> x < width"
      then show "colorDistance (read_pixel buffer2 stride2 y x)
               (background_of (pixel_states ?st0 ! nat (y * width + x))) < 25 \<and>
             time (pixel_states ?st0 ! nat (y * width + x)) = 0"
        using near cell [of y x] by (simp add: background_of_seeded)
    qed
    have rad: "(0::int) \<le> max 3 (min width height div 100)"
      by simp
    have "filter_impl ?st1 buffer2 width height stride2 pixel_stride2 =
          (?st0, composite_loop (replicate ?n 0) buffer2 width height stride2)"
      by (simp add: filter_impl_running [OF run] quiet applyMorphologicalOpening_def
          erosion_zeros [OF rad] dilation_zeros [OF rad] hysteresis_zeros Let_def)
    then show ?thesis
      using len1 time1 by (simp add: st1)
  qed
qed

text \<open>Two frames of two pixels, 10 apart in one channel at each pixel.\<close>

theorem noise_insensitivity_witness:
  "frame_ok [10, 20, 30, 40, 50, 60] 2 1 6 \<and> frame_ok [20, 20, 30, 40, 60, 60] 2 1 6 \<and>
   colorDistance (read_pixel [20, 20, 30, 40, 60, 60] 6 0 0) (read_pixel [10, 20, 30, 40, 50, 60] 6 0 0)
     < 25 \<and>
   colorDistance (read_pixel [20, 20, 30, 40, 60, 60] 6 0 1) (read_pixel [10, 20, 30, 40, 50, 60] 6 0 1)
     < 25 \<and>
   motion_mask (fst (filter_impl (fst (filter_impl initial_state [10, 20, 30, 40, 50, 60] 2 1 6 3))
      [20, 20, 30, 40, 60, 60] 2 1 6 3)) = [0, 0] \<and>
   time (pixel_states (fst (filter_impl (fst (filter_impl initial_state [10, 20, 30, 40, 50, 60] 2 1 6 3))
      [20, 20, 30, 40, 60, 60] 2 1 6 3)) ! 1) = 0"
proof -
  have ok: "frame_ok [10, 20, 30, 40, 50, 60] 2 1 6" "frame_ok [20, 20, 30, 40, 60, 60] 2 1 6"
    by (simp_all add: frame_ok_def)
  have d: "colorDistance (read_pixel [20, 20, 30, 40, 60, 60] 6 0 0)
             (read_pixel [10, 20, 30, 40, 50, 60] 6 0 0) < 25"
    "colorDistance (read_pixel [20, 20, 30, 40, 60, 60] 6 0 1)
             (read_pixel [10, 20, 30, 40, 50, 60] 6 0 1) < 25"
    by (simp_all add: colorDistance_def read_pixel_def pixel_offset_def)
  have near: "\<forall>y x. 0 \<le> y \<and> y < 1 \<and> 0 \<le> x \<and> x < 2 \<longrightarrow>
        colorDistance (read_pixel [20, 20, 30, 40, 60, 60] 6 y x)
          (read_pixel [10, 20, 30, 40, 50, 60] 6 y x) < 25"
  proof (intro allI impI)
    fix y x :: int
    assume "0 \<le> y \<and> y < 1 \<and> 0 \<le> x \<and> x < 2"
    then have "y = 0" "x = 0 \<or> x = 1"
      by auto
    then show "colorDistance (read_pixel [20, 20, 30, 40, 60, 60] 6 y x)
          (read_pixel [10, 20, 30, 40, 50, 60] 6 y x) < 25"
      using d by auto
  qed
  note t = noise_insensitivity [OF ok near, of 3 3]
  have "pixel_states (fst (filter_impl (fst (filter_impl initial_state [10, 20, 30, 40, 50, 60] 2 1 6 3))
      [20, 20, 30, 40, 60, 60] 2 1 6 3)) ! 1 \<in> set (pixel_states (fst (filter_impl
      (fst (filter_impl initial_state [10, 20, 30, 40, 50, 60] 2 1 6 3))
      [20, 20, 30, 40, 60, 60] 2 1 6 3)))"
    using t by (intro nth_mem) simp
  then show ?thesis
    using ok d t by (simp add: numeral_2_eq_2)
qed

subsection \<open>C9: the range of the counter\<close>

text \<open>
  Claim C9. After every completed call of the frame entry point every pixel's
  frames-since-reset counter lies between 0 and 100 inclusive: it is seeded at 0, reset to 0
  when the distance is below 25, and reset to 0 in the same step in which an increment takes
  it past 100, so no larger value is observable between calls. In a state reached by any
  number of calls all counters are within the range, they are so again after one more call,
  and that call leaves at each pixel exactly the counter the claim describes.
\<close>

theorem counter_range:
  assumes "reachable width height st" and "frame_ok buffer width height stride"
    and "0 \<le> y" "y < height" "0 \<le> x" "x < width"
  shows "(\<forall>s\<in>set (pixel_states st). 0 \<le> time s \<and> time s \<le> 100) \<and>
         (\<forall>s\<in>set (pixel_states (fst (filter_impl st buffer width height stride pixel_stride))).
             0 \<le> time s \<and> time s \<le> 100) \<and>
         time (pixel_states (fst (filter_impl st buffer width height stride pixel_stride))
                 ! nat (y * width + x)) =
           (if pixel_states st = [] then 0
            else if colorDistance (read_pixel buffer stride y x)
                      (background_of (pixel_states st ! nat (y * width + x))) < 25 then 0
            else if time (pixel_states st ! nat (y * width + x)) + 1 > 100 then 0
            else time (pixel_states st ! nat (y * width + x)) + 1)"
proof -
  let ?st' = "fst (filter_impl st buffer width height stride pixel_stride)"
  have before: "\<forall>s\<in>set (pixel_states st). 0 \<le> time s \<and> time s \<le> 100"
    using reachable_byte_state [OF assms(1)] by (simp add: byte_state_def)
  have "reachable width height ?st'"
    using assms(1,2) by (rule reachable.frame)
  then have after: "\<forall>s\<in>set (pixel_states ?st'). 0 \<le> time s \<and> time s \<le> 100"
    using reachable_byte_state by (fastforce simp: byte_state_def)
  have step: "time (pixel_states ?st' ! nat (y * width + x)) =
           (if pixel_states st = [] then 0
            else if colorDistance (read_pixel buffer stride y x)
                      (background_of (pixel_states st ! nat (y * width + x))) < 25 then 0
            else if time (pixel_states st ! nat (y * width + x)) + 1 > 100 then 0
            else time (pixel_states st ! nat (y * width + x)) + 1)"
  proof (cases "pixel_states st = []")
    case True
    then show ?thesis
      using first_frame_cells [OF True, of buffer width height stride pixel_stride] assms(3-6)
      by simp
  next
    case False
    have "pixel_states ?st' ! nat (y * width + x) =
        update_state (pixel_states st ! nat (y * width + x)) (read_pixel buffer stride y x)"
      using running_cells [OF False reachable_state_ok [OF assms(1)], of buffer stride pixel_stride]
        assms(3-6) by blast
    then show ?thesis
      using False by (simp only: update_state_time if_False)
  qed
  show ?thesis
    using before after step by blast
qed

text \<open>
  One pixel with estimate (10, 20, 30) and counter 2, reached by the frames (10, 20, 30),
  (110, 20, 30), (110, 20, 30): a frame showing (10, 20, 30) resets the counter to 0, a
  frame showing (110, 20, 30) takes it to 3.
\<close>

theorem counter_range_witness:
  "reachable 1 1 \<lparr>pixel_states = [\<lparr>bg_r = 10, bg_g = 20, bg_b = 30, time = 2\<rparr>], motion_mask = [1]\<rparr> \<and>
   frame_ok [10, 20, 30] 1 1 3 \<and> frame_ok [110, 20, 30] 1 1 3 \<and>
   colorDistance (read_pixel [10, 20, 30] 3 0 0)
     (background_of \<lparr>bg_r = 10, bg_g = 20, bg_b = 30, time = 2\<rparr>) < 25 \<and>
   time (pixel_states (fst (filter_impl
      \<lparr>pixel_states = [\<lparr>bg_r = 10, bg_g = 20, bg_b = 30, time = 2\<rparr>], motion_mask = [1]\<rparr>
      [10, 20, 30] 1 1 3 3)) ! 0) = 0 \<and>
   time (pixel_states (fst (filter_impl
      \<lparr>pixel_states = [\<lparr>bg_r = 10, bg_g = 20, bg_b = 30, time = 2\<rparr>], motion_mask = [1]\<rparr>
      [110, 20, 30] 1 1 3 3)) ! 0) = 3"
proof -
  have ok: "frame_ok [10, 20, 30] 1 1 3" "frame_ok [110, 20, 30] 1 1 3"
    by (simp_all add: frame_ok_def)
  have d: "colorDistance (read_pixel [10, 20, 30] 3 0 0)
      (background_of \<lparr>bg_r = 10, bg_g = 20, bg_b = 30, time = 2\<rparr>) < 25"
    "\<not> colorDistance (read_pixel [110, 20, 30] 3 0 0)
      (background_of \<lparr>bg_r = 10, bg_g = 20, bg_b = 30, time = 2\<rparr>) < 25"
    by (simp_all add: colorDistance_def read_pixel_def pixel_offset_def background_of_def
        to_uint8_t_def)
  show ?thesis
    using counter_range [OF example_reachable2 ok(1), of 0 0 3]
      counter_range [OF example_reachable2 ok(2), of 0 0 3] example_reachable2 ok d
    by simp
qed

subsection \<open>C10: the stored estimates are bytes\<close>

text \<open>
  Claim C10. Every stored background channel estimate is at all times an exact integer
  between 0 and 255: it is only ever assigned from 8-bit channel values, so truncating it to
  a byte before the distance computation never changes its value.
\<close>

theorem background_bytes:
  assumes "reachable width height st" and "s \<in> set (pixel_states st)"
  shows "bg_r s \<in> \<int> \<and> 0 \<le> bg_r s \<and> bg_r s \<le> 255 \<and> float_of_uint8 (to_uint8_t (bg_r s)) = bg_r s \<and>
         bg_g s \<in> \<int> \<and> 0 \<le> bg_g s \<and> bg_g s \<le> 255 \<and> float_of_uint8 (to_uint8_t (bg_g s)) = bg_g s \<and>
         bg_b s \<in> \<int> \<and> 0 \<le> bg_b s \<and> bg_b s \<le> 255 \<and> float_of_uint8 (to_uint8_t (bg_b s)) = bg_b s"
proof -
  have b: "byte_state s"
    using reachable_byte_state [OF assms(1)] assms(2) by simp
  have ch: "f \<in> \<int> \<and> 0 \<le> f \<and> f \<le> 255 \<and> float_of_uint8 (to_uint8_t f) = f"
    if "f = float_of_uint8 (to_uint8_t f)" for f
    using that float_of_uint8_range [of "to_uint8_t f"] float_of_uint8_Ints [of "to_uint8_t f"]
    by simp
  show ?thesis
    using b ch [of "bg_r s"] ch [of "bg_g s"] ch [of "bg_b s"] by (simp add: byte_state_def)
qed

text \<open>The same state: the estimates 10, 20 and 30 survive the cast to a byte.\<close>

theorem background_bytes_witness:
  "reachable 1 1 \<lparr>pixel_states = [\<lparr>bg_r = 10, bg_g = 20, bg_b = 30, time = 1\<rparr>], motion_mask = [1]\<rparr> \<and>
   float_of_uint8 (to_uint8_t 10) = 10 \<and> float_of_uint8 (to_uint8_t 20) = 20 \<and>
   float_of_uint8 (to_uint8_t 30) = 30"
  using background_bytes [OF example_reachable, of "\<lparr>bg_r = 10, bg_g = 20, bg_b = 30, time = 1\<rparr>"]
    example_reachable by simp

end
